theory Spec2Isabelle
  imports Complex_Main
begin

chapter \<open>The testnet bot: account runner, executors, configuration and log buffer\<close>

text \<open>
  The repository holds two variants of one script: \<^verbatim>\<open>index.js\<close> (the mouse-enabled
  version) and \<^verbatim>\<open>universal_testnet_bot.js\<close> (the text that follows the separator in
  \<^verbatim>\<open>src/unnamed/part_000\<close>). Both declare the same globals and the same functions, with
  small differences. Every function below takes the variant as its first argument and
  branches on it exactly where the two texts differ.
\<close>

datatype variant = IndexJs | UniBot

section \<open>JavaScript numbers\<close>

text \<open>
  A JavaScript number is NaN, an infinity or a finite value. Finite values are kept as
  rationals: the code only compares them, tests them for truthiness and subtracts one,
  which is exact on the values involved.
\<close>

datatype jsnum = NaN | PInf | NInf | Fin rat

text \<open>Truthiness of a number: NaN and zero are falsy.\<close>

definition truthy :: "jsnum \<Rightarrow> bool" where
  "truthy n = (case n of NaN \<Rightarrow> False | Fin q \<Rightarrow> q \<noteq> 0 | PInf \<Rightarrow> True | NInf \<Rightarrow> True)"

text \<open>The idiom \<^verbatim>\<open>x || 1\<close>.\<close>

definition orOne :: "jsnum \<Rightarrow> jsnum" where
  "orOne n = (if truthy n then n else Fin 1)"

text \<open>The comparison \<^verbatim>\<open>a < b\<close> on numbers: false as soon as one side is NaN.\<close>

fun lessNum :: "jsnum \<Rightarrow> jsnum \<Rightarrow> bool" where
  "lessNum NaN _ = False"
| "lessNum _ NaN = False"
| "lessNum (Fin a) (Fin b) = (a < b)"
| "lessNum (Fin _) PInf = True"
| "lessNum (Fin _) NInf = False"
| "lessNum NInf NInf = False"
| "lessNum NInf _ = True"
| "lessNum PInf _ = False"

text \<open>The subtraction \<^verbatim>\<open>x - 1\<close>.\<close>

definition minusOne :: "jsnum \<Rightarrow> jsnum" where
  "minusOne n = (case n of Fin q \<Rightarrow> Fin (q - 1) | NaN \<Rightarrow> NaN | PInf \<Rightarrow> PInf | NInf \<Rightarrow> NInf)"

text \<open>A loop counter, which is a natural number, as a JavaScript number.\<close>

definition numOf :: "nat \<Rightarrow> jsnum" where
  "numOf k = Fin (of_nat k)"

section \<open>Decimal text of a natural number\<close>

definition digitChar :: "nat \<Rightarrow> char" where
  "digitChar d =
     (if d = 0 then CHR ''0'' else if d = 1 then CHR ''1'' else if d = 2 then CHR ''2''
      else if d = 3 then CHR ''3'' else if d = 4 then CHR ''4'' else if d = 5 then CHR ''5''
      else if d = 6 then CHR ''6'' else if d = 7 then CHR ''7'' else if d = 8 then CHR ''8''
      else CHR ''9'')"

fun showNat :: "nat \<Rightarrow> string" where
  "showNat n = (if n < 10 then [digitChar n] else showNat (n div 10) @ [digitChar (n mod 10)])"

section \<open>The globals of the script\<close>

record config =
  bridgeRepetitions :: jsnum
  swapRepetitions :: jsnum

text \<open>
  A log line keeps its level and its text. The time-of-day prefix and the colour that
  \<^verbatim>\<open>addLog\<close> derives from the level are presentation and are left out.
\<close>

record logLine =
  level :: string
  line :: string

text \<open>A file of lines on disk: absent, failing to be read (with the error's message), or read.\<close>

datatype lineFile = Missing | Unreadable string | Content string

text \<open>
  A JSON value as \<^verbatim>\<open>JSON.parse\<close> returns it. An object keeps its members in the order
  of the text; a repeated key is read as its last occurrence.
\<close>

datatype json = JNull | JBool bool | JNum jsnum | JStr string | JArr "json list"
  | JObj "(string \<times> json) list"

text \<open>
  The configuration file: absent, text that \<^verbatim>\<open>JSON.parse\<close> rejects (with the
  error's message), or text that parses to a value.
\<close>

datatype cfgfile = NoFile | BadJson string | Json json

datatype txkind = Approve | Deposit | Multicall

text \<open>
  What the script does to the outside world, in order: a call of an executor (secret, proxy,
  account index), a timer that ran for some milliseconds, a press of Stop by the user, and
  a transaction handed to the chain client (kind, numeric arguments, nonce, gas limit).
\<close>

datatype event =
    ExecBridge string "string option" nat
  | ExecSwap string "string option" nat
  | Slept nat
  | StopPressed
  | Submitted txkind "nat list" nat nat

text \<open>
  The state: the script's global variables, the configuration file, and two fields that
  only observe the run (\<open>clock\<close> counts the suspension points passed, \<open>trace\<close> lists
  the events so far).
\<close>

record state =
  privateKeys :: "string list"
  proxies :: "string list"
  dailyActivityConfig :: config
  transactionLogs :: "logLine list"
  activityRunning :: bool
  shouldStop :: bool
  configFile :: cfgfile
  clock :: nat
  trace :: "event list"

text \<open>
  A statement that may throw: it returns the thrown error's message (\<open>Inl\<close>) or a value
  (\<open>Inr\<close>), and the state it leaves.
\<close>

type_synonym 'a io = "state \<Rightarrow> (string + 'a) \<times> state"

definition ret :: "'a \<Rightarrow> 'a io" where
  "ret x s = (Inr x, s)"

definition throw :: "string \<Rightarrow> 'a io" where
  "throw e s = (Inl e, s)"

definition bindE :: "'a io \<Rightarrow> ('a \<Rightarrow> 'b io) \<Rightarrow> 'b io" where
  "bindE m f s = (case m s of (Inl e, s') \<Rightarrow> (Inl e, s') | (Inr x, s') \<Rightarrow> f x s')"

text \<open>\<^verbatim>\<open>try { m } catch (e) { h(e.message) }\<close>\<close>

definition tryCatch :: "'a io \<Rightarrow> (string \<Rightarrow> 'a io) \<Rightarrow> 'a io" where
  "tryCatch m h s = (case m s of (Inl e, s') \<Rightarrow> h e s' | (Inr x, s') \<Rightarrow> (Inr x, s'))"

text \<open>An awaited call of the chain client, whose outcome the environment gives.\<close>

definition awaitOutcome :: "(string + 'a) \<Rightarrow> 'a io" where
  "awaitOutcome r s = (r, s)"

section \<open>The log buffer\<close>

text \<open>
  \<^verbatim>\<open>xs.slice(-n)\<close>: the last \<open>n\<close> elements, and the whole array when \<open>n\<close> is 0
  (\<^verbatim>\<open>-0\<close> is index 0).
\<close>

definition sliceLast :: "nat \<Rightarrow> 'a list \<Rightarrow> 'a list" where
  "sliceLast n xs = (if n = 0 then xs else drop (length xs - n) xs)"

definition trimLogs :: "nat \<Rightarrow> logLine list \<Rightarrow> logLine list" where
  "trimLogs limit logs = (if length logs > limit then sliceLast limit logs else logs)"

text \<open>
  \<^verbatim>\<open>addLog(str, type)\<close>: \<^verbatim>\<open>index.js\<close> pushes the line and calls
  \<^verbatim>\<open>trimLogs()\<close> with its default limit 1000; the other variant only pushes.
\<close>

definition addLog :: "variant \<Rightarrow> string \<Rightarrow> string \<Rightarrow> state \<Rightarrow> state" where
  "addLog v str ty s =
     (let pushed = transactionLogs s @ [\<lparr>level = ty, line = str\<rparr>]
      in s\<lparr>transactionLogs := (case v of IndexJs \<Rightarrow> trimLogs 1000 pushed | UniBot \<Rightarrow> pushed)\<rparr>)"

definition logIO :: "variant \<Rightarrow> string \<Rightarrow> string \<Rightarrow> unit io" where
  "logIO v str ty s = (Inr (), addLog v str ty s)"

text \<open>A sequence of appends, each a text and a level.\<close>

fun addLogs :: "variant \<Rightarrow> (string \<times> string) list \<Rightarrow> state \<Rightarrow> state" where
  "addLogs v [] s = s"
| "addLogs v (e # es) s = addLogs v es (addLog v (fst e) (snd e) s)"

section \<open>Reading the line files\<close>

text \<open>\<^verbatim>\<open>data.split("\n")\<close>\<close>

fun splitNl :: "string \<Rightarrow> string list" where
  "splitNl [] = [[]]"
| "splitNl (c # cs) =
     (if c = CHR 0x0A then [] # splitNl cs
      else (case splitNl cs of [] \<Rightarrow> [[c]] | l # ls \<Rightarrow> (c # l) # ls))"

text \<open>
  \<^verbatim>\<open>l.trim()\<close> on the one-byte white space characters (tab, line feed, vertical tab,
  form feed, carriage return, space).
\<close>

definition isSpace :: "char \<Rightarrow> bool" where
  "isSpace c = (c \<in> {CHR 0x09, CHR 0x0A, CHR 0x0B, CHR 0x0C, CHR 0x0D, CHR 0x20})"

definition trim :: "string \<Rightarrow> string" where
  "trim l = rev (dropWhile isSpace (rev (dropWhile isSpace l)))"

text \<open>
  \<^verbatim>\<open>readLines(file)\<close> (\<^verbatim>\<open>readFileLines(path)\<close> in the other variant): no lines for
  a missing file, no lines and an error line in the log for a failing read, else the
  trimmed non-empty lines.
\<close>

definition readLines :: "variant \<Rightarrow> string \<Rightarrow> lineFile \<Rightarrow> state \<Rightarrow> string list \<times> state" where
  "readLines v name f s =
     (case f of
        Missing \<Rightarrow> ([], s)
      | Unreadable e \<Rightarrow>
          ([], addLog v (case v of IndexJs \<Rightarrow> ''readLines '' @ name @ '' error: '' @ e
                                | UniBot \<Rightarrow> ''Failed read '' @ name @ '': '' @ e) ''error'' s)
      | Content d \<Rightarrow> (filter (\<lambda>l. length l > 0) (map trim (splitNl d)), s))"

definition isHex :: "char \<Rightarrow> bool" where
  "isHex c = (let k = of_char c :: nat
              in (48 \<le> k \<and> k \<le> 57) \<or> (97 \<le> k \<and> k \<le> 102) \<or> (65 \<le> k \<and> k \<le> 70))"

text \<open>The test \<^verbatim>\<open>/^(0x)?[0-9a-fA-F]{64}$/\<close> of \<^verbatim>\<open>loadPrivateKeys\<close>.\<close>

definition isKey :: "string \<Rightarrow> bool" where
  "isKey k = (let hex64 = (\<lambda>h. length h = 64 \<and> list_all isHex h)
              in hex64 k \<or> (take 2 k = ''0x'' \<and> hex64 (drop 2 k)))"

text \<open>
  \<^verbatim>\<open>loadPrivateKeys()\<close>; in the other variant the first statements of
  \<^verbatim>\<open>loadEnvironment()\<close>, which keep every non-empty line.
\<close>

definition loadPrivateKeys :: "variant \<Rightarrow> lineFile \<Rightarrow> state \<Rightarrow> state" where
  "loadPrivateKeys v f s =
     (let (ls, s1) = readLines v ''pk.txt'' f s;
          ks = (case v of IndexJs \<Rightarrow> filter isKey ls | UniBot \<Rightarrow> filter (\<lambda>k. k \<noteq> []) ls);
          s2 = s1\<lparr>privateKeys := ks\<rparr>
      in case v of
           IndexJs \<Rightarrow>
             (if length ks = 0
              then addLog v ''No private keys found (pk.txt). Add at least one 0x... private key.'' ''warn'' s2
              else addLog v (''Loaded '' @ showNat (length ks) @ '' private key(s) from pk.txt'') ''success'' s2)
         | UniBot \<Rightarrow>
             (if length ks = 0
              then addLog v ''No private keys found in pk.txt'' ''error'' s2
              else addLog v (''Loaded '' @ showNat (length ks) @ '' private keys'') ''success'' s2))"

text \<open>\<^verbatim>\<open>loadProxies()\<close>; in the other variant the next statements of \<^verbatim>\<open>loadEnvironment()\<close>.\<close>

definition loadProxies :: "variant \<Rightarrow> lineFile \<Rightarrow> state \<Rightarrow> state" where
  "loadProxies v f s =
     (let (ls, s1) = readLines v ''proxy.txt'' f s;
          s2 = s1\<lparr>proxies := ls\<rparr>
      in case v of
           IndexJs \<Rightarrow>
             (if length ls \<noteq> 0
              then addLog v (''Loaded '' @ showNat (length ls) @ '' proxies from proxy.txt'') ''success'' s2
              else addLog v ''No proxies loaded (proxy.txt missing or empty). Running without proxies.'' ''info'' s2)
         | UniBot \<Rightarrow>
             (if length ls > 0
              then addLog v (''Loaded '' @ showNat (length ls) @ '' proxies'') ''success'' s2
              else addLog v ''No proxies loaded (proxy.txt missing or empty)'' ''info'' s2))"

section \<open>Proxy of an account\<close>

text \<open>\<^verbatim>\<open>a % b\<close> on array indices: NaN (\<open>None\<close>) when \<open>b\<close> is 0.\<close>

definition jsMod :: "nat \<Rightarrow> nat \<Rightarrow> nat option" where
  "jsMod a b = (if b = 0 then None else Some (a mod b))"

text \<open>\<^verbatim>\<open>xs[k]\<close>: undefined (\<open>None\<close>) when \<open>k\<close> is NaN or past the end.\<close>

definition jsIndex :: "'a list \<Rightarrow> nat option \<Rightarrow> 'a option" where
  "jsIndex xs k = (case k of None \<Rightarrow> None | Some j \<Rightarrow> (if j < length xs then Some (xs ! j) else None))"

text \<open>\<^verbatim>\<open>x || null\<close> on a string or undefined: the empty string is falsy too.\<close>

definition orNull :: "string option \<Rightarrow> string option" where
  "orNull x = (case x of None \<Rightarrow> None | Some p \<Rightarrow> (if p = [] then None else Some p))"

text \<open>
  The proxy of account \<open>i\<close>: \<^verbatim>\<open>proxies[i % Math.max(1, proxies.length)] || null\<close> in
  \<^verbatim>\<open>index.js\<close>, \<^verbatim>\<open>proxies[i % proxies.length] || null\<close> in the other variant.
\<close>

definition resolveProxy :: "variant \<Rightarrow> string list \<Rightarrow> nat \<Rightarrow> string option" where
  "resolveProxy v ps i =
     orNull (jsIndex ps (case v of IndexJs \<Rightarrow> jsMod i (max 1 (length ps))
                                 | UniBot \<Rightarrow> jsMod i (length ps)))"

section \<open>The configuration file\<close>

text \<open>
  \<^verbatim>\<open>c.key\<close> on a parsed value: a TypeError on \<^verbatim>\<open>null\<close>, the member of an object
  (\<open>None\<close> is \<^verbatim>\<open>undefined\<close>), and \<^verbatim>\<open>undefined\<close> on every other value for the two
  keys the script reads.
\<close>

definition getField :: "json \<Rightarrow> string \<Rightarrow> string + json option" where
  "getField c k =
     (case c of
        JNull \<Rightarrow> Inl (''Cannot read properties of null (reading '' @ k @ '')'')
      | JObj kvs \<Rightarrow> Inr (map_of (rev kvs) k)
      | _ \<Rightarrow> Inr None)"

text \<open>
  \<^verbatim>\<open>Number(x)\<close>: NaN for \<^verbatim>\<open>undefined\<close>, 0 for \<^verbatim>\<open>null\<close>, 0 or 1 for a boolean, the
  number itself for a number. For a string, an array or an object the language converts
  the value's text; that conversion is the parameter \<open>textNum\<close>, which may also throw.
\<close>

definition toNumber :: "(json \<Rightarrow> string + jsnum) \<Rightarrow> json option \<Rightarrow> string + jsnum" where
  "toNumber textNum x =
     (case x of
        None \<Rightarrow> Inr NaN
      | Some JNull \<Rightarrow> Inr (Fin 0)
      | Some (JBool b) \<Rightarrow> Inr (Fin (if b then 1 else 0))
      | Some (JNum n) \<Rightarrow> Inr n
      | Some j \<Rightarrow> textNum j)"

text \<open>
  The value \<^verbatim>\<open>JSON.stringify\<close> writes for a number, as \<^verbatim>\<open>JSON.parse\<close> reads it back:
  the number itself when it is finite, \<^verbatim>\<open>null\<close> otherwise.
\<close>

definition numJson :: "jsnum \<Rightarrow> json" where
  "numJson n = (case n of Fin q \<Rightarrow> JNum (Fin q) | _ \<Rightarrow> JNull)"

definition configJson :: "config \<Rightarrow> json" where
  "configJson c = JObj [(''bridgeRepetitions'', numJson (bridgeRepetitions c)),
                        (''swapRepetitions'', numJson (swapRepetitions c))]"

text \<open>
  \<^verbatim>\<open>fs.writeFileSync(CONFIG_FILE, JSON.stringify(dailyActivityConfig, null, 2))\<close>; the
  environment says whether the write throws (\<open>Some\<close> of the error's message).
\<close>

definition writeConfig :: "string option \<Rightarrow> unit io" where
  "writeConfig writeErr s =
     (case writeErr of
        Some e \<Rightarrow> (Inl e, s)
      | None \<Rightarrow> (Inr (), s\<lparr>configFile := Json (configJson (dailyActivityConfig s))\<rparr>))"

text \<open>
  The two assignments \<^verbatim>\<open>dailyActivityConfig.bridgeRepetitions = Number(c.bridgeRepetitions) || 1\<close>
  and the same for \<^verbatim>\<open>swapRepetitions\<close>, in order: a throw in the second leaves the first done.
\<close>

definition assignConfig :: "(json \<Rightarrow> string + jsnum) \<Rightarrow> json \<Rightarrow> unit io" where
  "assignConfig textNum c =
     bindE (awaitOutcome (getField c ''bridgeRepetitions'')) (\<lambda>fb.
     bindE (awaitOutcome (toNumber textNum fb)) (\<lambda>nb.
     bindE (\<lambda>s. (Inr (), s\<lparr>dailyActivityConfig := (dailyActivityConfig s)\<lparr>bridgeRepetitions := orOne nb\<rparr>\<rparr>)) (\<lambda>_.
     bindE (awaitOutcome (getField c ''swapRepetitions'')) (\<lambda>fs.
     bindE (awaitOutcome (toNumber textNum fs)) (\<lambda>ns.
     (\<lambda>s. (Inr (), s\<lparr>dailyActivityConfig := (dailyActivityConfig s)\<lparr>swapRepetitions := orOne ns\<rparr>\<rparr>)))))))"

text \<open>
  \<^verbatim>\<open>loadConfig()\<close> of \<^verbatim>\<open>index.js\<close>, and the last statements of \<^verbatim>\<open>loadEnvironment()\<close>
  of the other variant. In \<^verbatim>\<open>index.js\<close> one \<^verbatim>\<open>try\<close> covers both branches; in the other
  variant it covers only the branch of the existing file, so a failing write of the
  default file throws out of the function.
\<close>

definition loadConfig :: "variant \<Rightarrow> (json \<Rightarrow> string + jsnum) \<Rightarrow> string option \<Rightarrow> unit io" where
  "loadConfig v textNum writeErr s =
     (case v of
        IndexJs \<Rightarrow>
          tryCatch
            (case configFile s of
               NoFile \<Rightarrow>
                 bindE (writeConfig writeErr) (\<lambda>_. logIO v ''Created default config.json'' ''info'')
             | BadJson e \<Rightarrow> throw e
             | Json c \<Rightarrow>
                 bindE (assignConfig textNum c) (\<lambda>_. logIO v ''Loaded config.json'' ''success''))
            (\<lambda>e. logIO v (''Failed to load config.json: '' @ e) ''error'') s
      | UniBot \<Rightarrow>
          (case configFile s of
             NoFile \<Rightarrow>
               bindE (writeConfig writeErr) (\<lambda>_. logIO v ''Created default config.json'' ''info'') s
           | BadJson e \<Rightarrow>
               tryCatch (throw e) (\<lambda>e. logIO v ''Invalid config.json, using defaults'' ''error'') s
           | Json c \<Rightarrow>
               tryCatch
                 (bindE (assignConfig textNum c) (\<lambda>_. logIO v ''Loaded config.json'' ''success''))
                 (\<lambda>e. logIO v ''Invalid config.json, using defaults'' ''error'') s))"

text \<open>\<^verbatim>\<open>saveConfig()\<close> of \<^verbatim>\<open>index.js\<close>.\<close>

definition saveConfig :: "string option \<Rightarrow> unit io" where
  "saveConfig writeErr =
     tryCatch
       (bindE (writeConfig writeErr) (\<lambda>_. logIO IndexJs ''Saved config.json'' ''success''))
       (\<lambda>e. logIO IndexJs (''Failed to save config: '' @ e) ''error'')"

text \<open>A positive integer, as the specification asks of a repetition count.\<close>

definition positiveInteger :: "jsnum \<Rightarrow> bool" where
  "positiveInteger n = (case n of Fin q \<Rightarrow> 1 \<le> q \<and> q = of_int \<lfloor>q\<rfloor> | _ \<Rightarrow> False)"

section \<open>The executors\<close>

definition TOKEN_A :: "variant \<Rightarrow> string" where
  "TOKEN_A v = (case v of IndexJs \<Rightarrow> ''0x0000000000000000000000000000000000000001''
                        | UniBot \<Rightarrow> ''0xTokenAAddress000000000000000000000000'')"

definition TOKEN_B :: "variant \<Rightarrow> string" where
  "TOKEN_B v = (case v of IndexJs \<Rightarrow> ''0x0000000000000000000000000000000000000002''
                        | UniBot \<Rightarrow> ''0xTokenBAddress000000000000000000000000'')"

definition BRIDGE_ROUTER :: "variant \<Rightarrow> string" where
  "BRIDGE_ROUTER v = (case v of IndexJs \<Rightarrow> ''0x0000000000000000000000000000000000000b1d''
                              | UniBot \<Rightarrow> ''0xBridgeRouterAddress000000000000000000'')"

definition SWAP_ROUTER :: "variant \<Rightarrow> string" where
  "SWAP_ROUTER v = (case v of IndexJs \<Rightarrow> ''0x0000000000000000000000000000000000005wap''
                            | UniBot \<Rightarrow> ''0xSwapRouterAddress0000000000000000000000'')"

text \<open>
  What the outside world answers during one executor call: for each step that can throw,
  the thrown error's message or the step's value. \<^verbatim>\<open>Math.random()\<close> and
  \<^verbatim>\<open>Date.now()\<close> are answers of the environment too. The value of a fee estimate is
  handed back to the client unchanged and is not kept.
\<close>

record chain =
  providerInit :: "string option \<Rightarrow> string + unit"
  walletInit :: "string \<Rightarrow> string + string"
  mathRandom :: rat
  dateNow :: nat
  allowanceOut :: "string + nat"
  approveNonce :: "string + nat"
  approveFee :: "string + unit"
  approveSend :: "string + string"
  approveWait :: "string + unit"
  encodeOut :: "string + unit"
  txNonce :: "string + nat"
  txFee :: "string + unit"
  txSend :: "string + string"
  txWait :: "string + unit"

text \<open>
  \<^verbatim>\<open>x.toFixed(6)\<close> of a non-negative number: the decimal text with six fraction digits
  nearest to \<open>x\<close>, the larger one on a tie. The text is kept as its count of
  millionths; \<open>fixed6Text\<close> writes it out. The arithmetic is that of the rationals.
\<close>

definition toFixed6 :: "rat \<Rightarrow> nat" where
  "toFixed6 x = nat \<lfloor>x * 1000000 + 1 / 2\<rfloor>"

definition fixed6Text :: "nat \<Rightarrow> string" where
  "fixed6Text n =
     showNat (n div 1000000) @ ''.'' @
     replicate (6 - length (showNat (n mod 1000000))) (CHR ''0'') @ showNat (n mod 1000000)"

text \<open>
  \<^verbatim>\<open>ethers.parseUnits(text, 18)\<close> of a text with six fraction digits: the integer of
  base units, eighteen decimal places.
\<close>

definition parseUnits18 :: "nat \<Rightarrow> nat" where
  "parseUnits18 millionths = millionths * 10 ^ 12"

text \<open>
  The bridge amount: \<^verbatim>\<open>(Math.random() * (0.03 - 0.01) + 0.01).toFixed(6)\<close> in
  \<^verbatim>\<open>index.js\<close>, \<^verbatim>\<open>(Math.random() * (0.05 - 0.01) + 0.01).toFixed(6)\<close> in the other variant.
\<close>

definition bridgeAmount :: "variant \<Rightarrow> rat \<Rightarrow> nat" where
  "bridgeAmount v r =
     (case v of IndexJs \<Rightarrow> toFixed6 (r * (3 / 100 - 1 / 100) + 1 / 100)
              | UniBot \<Rightarrow> toFixed6 (r * (5 / 100 - 1 / 100) + 1 / 100))"

text \<open>The swap amount: \<^verbatim>\<open>(Math.random() * (0.02 - 0.005) + 0.005).toFixed(6)\<close>.\<close>

definition swapAmount :: "rat \<Rightarrow> nat" where
  "swapAmount r = toFixed6 (r * (2 / 100 - 5 / 1000) + 5 / 1000)"

text \<open>\<^verbatim>\<open>shortHash(h)\<close>\<close>

definition shortHash :: "string \<Rightarrow> string" where
  "shortHash h = (if h = [] then ''N/A'' else take 6 h @ ''...'' @ sliceLast 4 h)"

text \<open>The prefix \<^verbatim>\<open>Acct ${accountIndex+1}\<close> of an executor's log lines.\<close>

definition acct :: "nat \<Rightarrow> string" where
  "acct idx = ''Acct '' @ showNat (idx + 1)"

text \<open>
  \<^verbatim>\<open>getProvider(rpcUrl, chainId, proxyUrl)\<close>: the other variant logs a failure and throws
  it again.
\<close>

definition getProvider :: "variant \<Rightarrow> chain \<Rightarrow> string option \<Rightarrow> unit io" where
  "getProvider v ch proxyUrl =
     (case v of
        IndexJs \<Rightarrow> awaitOutcome (providerInit ch proxyUrl)
      | UniBot \<Rightarrow>
          tryCatch (awaitOutcome (providerInit ch proxyUrl))
            (\<lambda>e. bindE (logIO v (''Provider init failed: '' @ e) ''error'') (\<lambda>_. throw e)))"

text \<open>
  The next pending nonce: \<^verbatim>\<open>provider.getTransactionCount(address, "pending")\<close> in
  \<^verbatim>\<open>index.js\<close>, \<^verbatim>\<open>getNextNonce\<close> in the other variant, which logs a failure and throws
  it again.
\<close>

definition getNextNonce :: "variant \<Rightarrow> (string + nat) \<Rightarrow> nat io" where
  "getNextNonce v out =
     (case v of
        IndexJs \<Rightarrow> awaitOutcome out
      | UniBot \<Rightarrow>
          tryCatch (awaitOutcome out)
            (\<lambda>e. bindE (logIO v (''getNextNonce error: '' @ e) ''error'') (\<lambda>_. throw e)))"

text \<open>Handing a transaction to the client: the call is recorded, then it answers.\<close>

definition submit :: "txkind \<Rightarrow> nat list \<Rightarrow> nat \<Rightarrow> nat \<Rightarrow> (string + string) \<Rightarrow> string io" where
  "submit kind args nonce gasLimit out s =
     (out, s\<lparr>trace := trace s @ [Submitted kind args nonce gasLimit]\<rparr>)"

definition MaxUint256 :: nat where
  "MaxUint256 = 2 ^ 256 - 1"

text \<open>
  \<^verbatim>\<open>checkAndApproveIfNeeded\<close> (\<^verbatim>\<open>checkAndApprove\<close> in the other variant): true when the
  allowance suffices or the approval is mined, false on any throw inside.
\<close>

definition checkAndApprove :: "variant \<Rightarrow> chain \<Rightarrow> nat \<Rightarrow> nat \<Rightarrow> string \<Rightarrow> bool io" where
  "checkAndApprove v ch amountWei idx note =
     tryCatch
       (bindE (awaitOutcome (allowanceOut ch)) (\<lambda>allowance.
          if allowance \<ge> amountWei then
            bindE (logIO v (acct idx @ (case v of IndexJs \<Rightarrow> '': allowance already OK for ''
                                                | UniBot \<Rightarrow> '': allowance sufficient for '') @ note) ''debug'')
              (\<lambda>_. ret True)
          else
            bindE (logIO v (acct idx @ '': approving '' @ note @ ''...'') ''info'') (\<lambda>_.
            bindE (getNextNonce v (approveNonce ch)) (\<lambda>nonce.
            bindE (awaitOutcome (approveFee ch)) (\<lambda>_.
            bindE (submit Approve [MaxUint256] nonce 200000 (approveSend ch)) (\<lambda>hash.
            bindE (logIO v (acct idx @ (case v of IndexJs \<Rightarrow> '': approval tx '' @ shortHash hash @ '' sent''
                                                | UniBot \<Rightarrow> '': approval tx sent '' @ shortHash hash)) ''wait'') (\<lambda>_.
            bindE (awaitOutcome (approveWait ch)) (\<lambda>_.
            bindE (logIO v (acct idx @ (case v of IndexJs \<Rightarrow> '': approval mined''
                                                | UniBot \<Rightarrow> '': approved'')) ''success'')
              (\<lambda>_. ret True)))))))))
       (\<lambda>e. bindE (logIO v (acct idx @ '': approve failed: '' @ e) ''error'') (\<lambda>_. ret False))"

text \<open>
  The statements of the bridge after the approval, from the log line to the end of the
  \<^verbatim>\<open>try\<close> block.
\<close>

definition depositCall :: "variant \<Rightarrow> chain \<Rightarrow> nat \<Rightarrow> nat \<Rightarrow> bool io" where
  "depositCall v ch amount idx =
     bindE (logIO v (acct idx @ '': bridging '' @ fixed6Text amount @
              (case v of IndexJs \<Rightarrow> '' tokenA -> router'' | UniBot \<Rightarrow> '' tokenA ->'')) ''info'') (\<lambda>_.
     bindE (getNextNonce v (txNonce ch)) (\<lambda>nonce.
     bindE (awaitOutcome (txFee ch)) (\<lambda>_.
     bindE (submit Deposit [parseUnits18 amount] nonce 800000 (txSend ch)) (\<lambda>hash.
     bindE (logIO v (acct idx @ '': bridge tx '' @ shortHash hash @ '' sent'') ''wait'') (\<lambda>_.
     bindE (awaitOutcome (txWait ch)) (\<lambda>_.
     bindE (logIO v (acct idx @ '': bridge completed'') ''success'')
       (\<lambda>_. ret True)))))))"

text \<open>
  \<^verbatim>\<open>performBridgeSimple(pk, proxyUrl, accountIndex)\<close>. \<^verbatim>\<open>index.js\<close> awaits the approval
  and drops its result; the other variant returns false when it is false.
\<close>

definition performBridgeSimple :: "variant \<Rightarrow> chain \<Rightarrow> string \<Rightarrow> string option \<Rightarrow> nat \<Rightarrow> bool io" where
  "performBridgeSimple v ch pk proxyUrl idx =
     (if (case v of IndexJs \<Rightarrow> BRIDGE_ROUTER v = [] | UniBot \<Rightarrow> BRIDGE_ROUTER v = [] \<or> TOKEN_A v = [])
      then bindE (logIO v (case v of IndexJs \<Rightarrow> ''Bridge router not configured''
                                   | UniBot \<Rightarrow> ''Bridge addresses not configured'') ''error'')
             (\<lambda>_. ret False)
      else
        tryCatch
          (bindE (getProvider v ch proxyUrl) (\<lambda>_.
           bindE (awaitOutcome (walletInit ch pk)) (\<lambda>address.
           bindE (checkAndApprove v ch (parseUnits18 (bridgeAmount v (mathRandom ch))) idx ''bridge token'') (\<lambda>ok.
           case v of
             IndexJs \<Rightarrow> depositCall v ch (bridgeAmount v (mathRandom ch)) idx
           | UniBot \<Rightarrow>
               (if \<not> ok then ret False
                else depositCall v ch (bridgeAmount v (mathRandom ch)) idx)))))
          (\<lambda>e. bindE (logIO v (acct idx @ '': bridge error: '' @ e) ''error'') (\<lambda>_. ret False)))"

text \<open>
  The statements of the swap from the deadline to the end: the whole rest of the
  \<^verbatim>\<open>try\<close> block in \<^verbatim>\<open>index.js\<close>, the inner \<^verbatim>\<open>try\<close> block in the other variant.
\<close>

definition swapCall :: "variant \<Rightarrow> chain \<Rightarrow> nat \<Rightarrow> nat \<Rightarrow> bool io" where
  "swapCall v ch amountIn idx =
     (bindE (awaitOutcome (encodeOut ch)) (\<lambda>_.
      bindE (logIO v (acct idx @ '': swapping '' @ fixed6Text amountIn @
               (case v of IndexJs \<Rightarrow> '' (template)'' | UniBot \<Rightarrow> ''...'')) ''info'') (\<lambda>_.
      bindE (getNextNonce v (txNonce ch)) (\<lambda>nonce.
      bindE (awaitOutcome (txFee ch)) (\<lambda>_.
      bindE (submit Multicall [dateNow ch div 1000 + 1800, parseUnits18 amountIn, 0, 0] nonce 500000
               (txSend ch)) (\<lambda>hash.
      bindE (logIO v (acct idx @ '': swap tx '' @ shortHash hash @ '' sent'') ''wait'') (\<lambda>_.
      bindE (awaitOutcome (txWait ch)) (\<lambda>_.
      bindE (logIO v (acct idx @ '': swap completed'') ''success'')
        (\<lambda>_. ret True)))))))))"

text \<open>\<^verbatim>\<open>performSwapSimple(pk, proxyUrl, accountIndex)\<close>\<close>

definition performSwapSimple :: "variant \<Rightarrow> chain \<Rightarrow> string \<Rightarrow> string option \<Rightarrow> nat \<Rightarrow> bool io" where
  "performSwapSimple v ch pk proxyUrl idx =
     (if (case v of IndexJs \<Rightarrow> SWAP_ROUTER v = [] | UniBot \<Rightarrow> SWAP_ROUTER v = [] \<or> TOKEN_B v = [])
      then bindE (logIO v (case v of IndexJs \<Rightarrow> ''Swap router not configured''
                                   | UniBot \<Rightarrow> ''Swap addresses not configured'') ''error'')
             (\<lambda>_. ret False)
      else
        tryCatch
          (bindE (getProvider v ch proxyUrl) (\<lambda>_.
           bindE (awaitOutcome (walletInit ch pk)) (\<lambda>address.
           case v of
             IndexJs \<Rightarrow> swapCall v ch (swapAmount (mathRandom ch)) idx
           | UniBot \<Rightarrow>
               tryCatch (swapCall v ch (swapAmount (mathRandom ch)) idx)
                 (\<lambda>inner. bindE (logIO v (acct idx @ '': swap encoding failed: '' @ inner) ''error'')
                            (\<lambda>_. ret False)))))
          (\<lambda>e. bindE (logIO v (acct idx @ '': swap error: '' @ e) ''error'') (\<lambda>_. ret False)))"

section \<open>The activity runner\<close>

text \<open>
  What happens around the runner while it is suspended at its \<open>k\<close>-th \<^verbatim>\<open>await\<close>:
  whether the user presses Stop, whether the awaited call throws an error the runner
  does not expect (with its message), and the value of \<^verbatim>\<open>Math.random()\<close> read there.
  Stop is the only control action delivered during a run.
\<close>

record env =
  stopAt :: "nat \<Rightarrow> bool"
  faultAt :: "nat \<Rightarrow> string option"
  randomAt :: "nat \<Rightarrow> rat"

text \<open>The menu action \<^verbatim>\<open>Stop Activity\<close>.\<close>

definition handleStop :: "variant \<Rightarrow> state \<Rightarrow> state" where
  "handleStop v s =
     (if \<not> activityRunning s then addLog v ''Activity not running'' ''info'' s
      else addLog v (case v of IndexJs \<Rightarrow> ''Stop requested. Waiting for current operations to finish...''
                             | UniBot \<Rightarrow> ''Stop request issued, waiting for operations to finish...'') ''wait''
             (s\<lparr>shouldStop := True\<rparr>))"

text \<open>
  One \<^verbatim>\<open>await\<close> of the runner: the awaited call is recorded, the Stop handler runs if
  the user presses Stop meanwhile, and the call returns or throws.
\<close>

definition suspend :: "variant \<Rightarrow> env \<Rightarrow> event \<Rightarrow> unit io" where
  "suspend v env ev s =
     (let k = clock s;
          s1 = s\<lparr>clock := Suc k, trace := trace s @ [ev]\<rparr>;
          s2 = (if stopAt env k then handleStop v (s1\<lparr>trace := trace s1 @ [StopPressed]\<rparr>) else s1)
      in (case faultAt env k of Some e \<Rightarrow> Inl e | None \<Rightarrow> Inr (), s2))"

text \<open>\<^verbatim>\<open>sleep(ms)\<close>\<close>

definition sleep :: "variant \<Rightarrow> env \<Rightarrow> nat \<Rightarrow> unit io" where
  "sleep v env ms = suspend v env (Slept ms)"

text \<open>
  \<^verbatim>\<open>sleepRandom(minMs, maxMs)\<close>: \<^verbatim>\<open>Math.floor(Math.random() * (maxMs - minMs + 1)) + minMs\<close>
  milliseconds.
\<close>

definition sleepRandom :: "variant \<Rightarrow> env \<Rightarrow> nat \<Rightarrow> nat \<Rightarrow> unit io" where
  "sleepRandom v env minMs maxMs s =
     sleep v env (nat \<lfloor>randomAt env (clock s) * (of_nat maxMs - of_nat minMs + 1)\<rfloor> + minMs) s"

text \<open>
  The two inner loops of an account have one shape,
  \<^verbatim>\<open>for (let b = 0; b < (reps || 1) && !shouldStop; b++) { await perform(pk, proxyUrl, i);
  if (b < (reps - 1)) await sleepRandom(8000, 20000); }\<close>,
  with \<open>reps\<close> the bridge or the swap count, read from the configuration at every test,
  and \<open>call\<close> the executor call. \<open>repTest\<close> is the loop's test, \<open>repBody\<close> its body.
\<close>

definition repTest :: "(config \<Rightarrow> jsnum) \<Rightarrow> nat \<Rightarrow> state \<Rightarrow> bool" where
  "repTest reps b s = (lessNum (numOf b) (orOne (reps (dailyActivityConfig s))) \<and> \<not> shouldStop s)"

definition repBody :: "variant \<Rightarrow> env \<Rightarrow> (config \<Rightarrow> jsnum) \<Rightarrow> event \<Rightarrow> nat \<Rightarrow> unit io" where
  "repBody v env reps call b =
     bindE (suspend v env call)
       (\<lambda>_ s1. if lessNum (numOf b) (minusOne (reps (dailyActivityConfig s1)))
               then sleepRandom v env 8000 20000 s1 else ret () s1)"

text \<open>The loop from counter \<open>b\<close> on. It has no value when the loop never ends.\<close>

partial_function (option) repLoop ::
  "variant \<Rightarrow> env \<Rightarrow> (config \<Rightarrow> jsnum) \<Rightarrow> event \<Rightarrow> nat \<Rightarrow> state \<Rightarrow> ((string + unit) \<times> state) option" where
  "repLoop v env reps call b s =
     (if repTest reps b s then
        (case repBody v env reps call b s of
           (Inl e, s') \<Rightarrow> Some (Inl e, s')
         | (Inr _, s') \<Rightarrow> repLoop v env reps call (Suc b) s')
      else Some (Inr (), s))"

text \<open>Sequencing of steps that may not return.\<close>

definition thenO ::
  "((string + unit) \<times> state) option \<Rightarrow> (state \<Rightarrow> ((string + unit) \<times> state) option)
     \<Rightarrow> ((string + unit) \<times> state) option" where
  "thenO r f = (case r of None \<Rightarrow> None | Some (Inl e, s') \<Rightarrow> Some (Inl e, s') | Some (Inr _, s') \<Rightarrow> f s')"

text \<open>
  The body of the account loop from the bridge loop's counter \<open>b\<close> on: the bridge loop,
  the gap (\<^verbatim>\<open>sleepRandom(7000, 15000)\<close> in \<^verbatim>\<open>index.js\<close>, \<^verbatim>\<open>sleepRandom(8000, 15000)\<close> in the
  other variant), the swap loop, and the wait of 30 seconds when an account follows.
\<close>

definition accountFrom ::
  "variant \<Rightarrow> env \<Rightarrow> string \<Rightarrow> string option \<Rightarrow> nat \<Rightarrow> nat \<Rightarrow> state \<Rightarrow> ((string + unit) \<times> state) option" where
  "accountFrom v env pk proxyUrl i b s =
     thenO (repLoop v env bridgeRepetitions (ExecBridge pk proxyUrl i) b s) (\<lambda>s1.
     thenO (Some (sleepRandom v env (case v of IndexJs \<Rightarrow> 7000 | UniBot \<Rightarrow> 8000) 15000 s1)) (\<lambda>s2.
     thenO (repLoop v env swapRepetitions (ExecSwap pk proxyUrl i) 0 s2) (\<lambda>s3.
       Some (if i < length (privateKeys s3) - 1
             then bindE (logIO v ''Waiting 30s before next account...'' ''wait'')
                    (\<lambda>_. sleep v env 30000) s3
             else (Inr (), s3)))))"

text \<open>The body of the account loop for account \<open>i\<close>.\<close>

definition accountTurn :: "variant \<Rightarrow> env \<Rightarrow> nat \<Rightarrow> state \<Rightarrow> ((string + unit) \<times> state) option" where
  "accountTurn v env i s =
     (let pk = privateKeys s ! i;
          proxyUrl = resolveProxy v (proxies s) i;
          s0 = (case v of
                  IndexJs \<Rightarrow> addLog v (''Processing account '' @ showNat (i + 1) @ ''/'' @
                                         showNat (length (privateKeys s))) ''info'' s
                | UniBot \<Rightarrow> addLog v (''Processing account '' @ showNat (i + 1) @ '' (proxy='' @
                                        (case proxyUrl of None \<Rightarrow> ''none'' | Some p \<Rightarrow> p) @ '')'') ''info'' s)
      in accountFrom v env pk proxyUrl i 0 s0)"

text \<open>
  \<^verbatim>\<open>for (let i = 0; i < privateKeys.length && !shouldStop; i++) { ... }\<close>, from counter
  \<open>i\<close> on.
\<close>

partial_function (option) accountLoop ::
  "variant \<Rightarrow> env \<Rightarrow> nat \<Rightarrow> state \<Rightarrow> ((string + unit) \<times> state) option" where
  "accountLoop v env i s =
     (if i < length (privateKeys s) \<and> \<not> shouldStop s then
        (case accountTurn v env i s of
           None \<Rightarrow> None
         | Some (Inl e, s') \<Rightarrow> Some (Inl e, s')
         | Some (Inr _, s') \<Rightarrow> accountLoop v env (Suc i) s')
      else Some (Inr (), s))"

text \<open>
  \<^verbatim>\<open>runDailyActivityLoop()\<close>. In \<^verbatim>\<open>index.js\<close> the loop stands in
  \<^verbatim>\<open>try { ... } catch (e) { addLog(...) } finally { activityRunning = false; shouldStop = false; }\<close>.
  The other variant has no \<^verbatim>\<open>try\<close>: an error leaves the function as it is thrown, and the
  end of the function resets \<^verbatim>\<open>activityRunning\<close> only.
\<close>

definition runDailyActivityLoop :: "variant \<Rightarrow> env \<Rightarrow> state \<Rightarrow> ((string + unit) \<times> state) option" where
  "runDailyActivityLoop v env s =
     (case v of
        IndexJs \<Rightarrow>
          (if length (privateKeys s) = 0
           then Some (Inr (), addLog v ''No private keys loaded. Add keys to pk.txt'' ''error'' s)
           else if activityRunning s
           then Some (Inr (), addLog v ''Activity already running'' ''warn'' s)
           else
             (case accountLoop v env 0
                     (addLog v ''Starting activity loop'' ''success''
                        (s\<lparr>activityRunning := True, shouldStop := False\<rparr>)) of
                None \<Rightarrow> None
              | Some (Inr _, s') \<Rightarrow>
                  Some (Inr (), (addLog v ''Activity loop finished for all accounts'' ''success'' s')
                                  \<lparr>activityRunning := False, shouldStop := False\<rparr>)
              | Some (Inl e, s') \<Rightarrow>
                  Some (Inr (), (addLog v (''Runner unexpected error: '' @ e) ''error'' s')
                                  \<lparr>activityRunning := False, shouldStop := False\<rparr>)))
      | UniBot \<Rightarrow>
          (if length (privateKeys s) = 0
           then Some (Inr (), (addLog v ''No private keys loaded. Aborting activity.'' ''error'' s)
                                \<lparr>activityRunning := False\<rparr>)
           else
             (case accountLoop v env 0
                     (addLog v ''Starting daily activity loop'' ''success''
                        (s\<lparr>activityRunning := True, shouldStop := False\<rparr>)) of
                None \<Rightarrow> None
              | Some (Inr _, s') \<Rightarrow>
                  Some (Inr (), (addLog v ''Daily loop finished.'' ''success'' s')
                                  \<lparr>activityRunning := False\<rparr>)
              | Some (Inl e, s') \<Rightarrow> Some (Inl e, s'))))"

text \<open>
  The menu action \<^verbatim>\<open>Start Activity\<close>: nothing but a log line when a run is active,
  else the run, whose rejection is caught and logged.
\<close>

definition handleStart :: "variant \<Rightarrow> env \<Rightarrow> state \<Rightarrow> state option" where
  "handleStart v env s =
     (if activityRunning s then Some (addLog v ''Activity already running'' ''warn'' s)
      else
        (case runDailyActivityLoop v env s of
           None \<Rightarrow> None
         | Some (Inr _, s') \<Rightarrow> Some s'
         | Some (Inl e, s') \<Rightarrow>
             Some (addLog v ((case v of IndexJs \<Rightarrow> ''Runner crashed: '' | UniBot \<Rightarrow> ''Runner failed: '') @ e)
                     ''error'' s')))"

text \<open>The executor calls and the timers of a trace, in order.\<close>

fun isExec :: "event \<Rightarrow> bool" where
  "isExec (ExecBridge _ _ _) = True"
| "isExec (ExecSwap _ _ _) = True"
| "isExec _ = False"

fun isBridge :: "event \<Rightarrow> bool" where
  "isBridge (ExecBridge _ _ _) = True"
| "isBridge _ = False"

fun isSwap :: "event \<Rightarrow> bool" where
  "isSwap (ExecSwap _ _ _) = True"
| "isSwap _ = False"

definition execs :: "event list \<Rightarrow> event list" where
  "execs tr = filter isExec tr"

fun sleptMs :: "event \<Rightarrow> nat" where
  "sleptMs (Slept ms) = ms"
| "sleptMs _ = 0"

definition sleeps :: "event list \<Rightarrow> nat list" where
  "sleeps tr = map sleptMs (filter (\<lambda>e. case e of Slept _ \<Rightarrow> True | _ \<Rightarrow> False) tr)"

section \<open>Initial state\<close>

text \<open>The globals as the script declares them, before anything is loaded.\<close>

definition initState :: state where
  "initState = \<lparr>privateKeys = [], proxies = [],
     dailyActivityConfig = \<lparr>bridgeRepetitions = Fin 1, swapRepetitions = Fin 1\<rparr>,
     transactionLogs = [], activityRunning = False, shouldStop = False,
     configFile = NoFile, clock = 0, trace = []\<rparr>"

text \<open>The log line of an append given as text and level.\<close>

definition lineOf :: "string \<times> string \<Rightarrow> logLine" where
  "lineOf e = \<lparr>level = snd e, line = fst e\<rparr>"

section \<open>Notions used in the statements about the executors\<close>

text \<open>
  \<open>post m P s\<close>: the result and the final state of statement \<open>m\<close> run from \<open>s\<close>
  satisfy \<open>P\<close>.
\<close>

definition post :: "'a io \<Rightarrow> ((string + 'a) \<Rightarrow> state \<Rightarrow> bool) \<Rightarrow> state \<Rightarrow> bool" where
  "post m P s = (case m s of (r, s') \<Rightarrow> P r s')"

text \<open>The message of a failed step, as a list of none or one.\<close>

fun err :: "(string + 'a) \<Rightarrow> string list" where
  "err (Inl e) = [e]"
| "err (Inr _) = []"

text \<open>The messages of the failing steps of the approval, and of the transaction itself.\<close>

definition approvalFailures :: "chain \<Rightarrow> string list" where
  "approvalFailures ch = err (allowanceOut ch) @ err (approveNonce ch) @ err (approveFee ch) @
     err (approveSend ch) @ err (approveWait ch)"

definition callFailures :: "chain \<Rightarrow> string list" where
  "callFailures ch = err (txNonce ch) @ err (txFee ch) @ err (txSend ch) @ err (txWait ch)"



text \<open>
  The approval step fails: the allowance query throws, or the allowance is short and one
  of the steps of the approval transaction throws. (\<open>checkAndApprove\<close> returns false
  exactly then, see \<open>checkAndApprove_fails_iff\<close>.)
\<close>

definition approvalFails :: "chain \<Rightarrow> nat \<Rightarrow> bool" where
  "approvalFails ch amountWei =
     (case allowanceOut ch of
        Inl _ \<Rightarrow> True
      | Inr a \<Rightarrow> a < amountWei \<and>
          (isl (approveNonce ch) \<or> isl (approveFee ch) \<or> isl (approveSend ch) \<or> isl (approveWait ch)))"

text \<open>Every step of the transaction after the approval answers.\<close>

definition callSucceeds :: "chain \<Rightarrow> bool" where
  "callSucceeds ch = (\<not> isl (txNonce ch) \<and> \<not> isl (txFee ch) \<and> \<not> isl (txSend ch) \<and> \<not> isl (txWait ch))"

text \<open>The transactions of one kind handed to the client, in order.\<close>

fun isSubmitted :: "txkind \<Rightarrow> event \<Rightarrow> bool" where
  "isSubmitted k (Submitted k' _ _ _) = (k' = k)"
| "isSubmitted k _ = False"

definition submitted :: "txkind \<Rightarrow> event list \<Rightarrow> event list" where
  "submitted k tr = filter (isSubmitted k) tr"

text \<open>
  The deposit that \<open>depositCall\<close> hands to the client: none when the nonce or the fee
  query throws before.
\<close>

definition depositEvents :: "chain \<Rightarrow> nat \<Rightarrow> event list" where
  "depositEvents ch a =
     (case txNonce ch of
        Inl _ \<Rightarrow> []
      | Inr n \<Rightarrow> (if isl (txFee ch) then [] else [Submitted Deposit [parseUnits18 a] n 800000]))"

text \<open>
  A log line reports a failure of account \<open>idx\<close>: its level is \<^verbatim>\<open>error\<close> and its text is
  \<^verbatim>\<open>Acct <idx+1>: <what>: <message>\<close> for one of the given messages.
\<close>

definition failureLine :: "nat \<Rightarrow> string \<Rightarrow> string list \<Rightarrow> logLine \<Rightarrow> bool" where
  "failureLine idx what msgs l =
     (level l = ''error'' \<and> (\<exists>e \<in> set msgs. line l = acct idx @ '': '' @ what @ '': '' @ e))"


text \<open>
  An environment in which every step answers: the allowance is 0, so the approval
  transaction is sent, and the sample of \<^verbatim>\<open>Math.random()\<close> is one half.
\<close>

definition okChain :: chain where
  "okChain = \<lparr>providerInit = (\<lambda>_. Inr ()), walletInit = (\<lambda>_. Inr ''0xA11CE''),
     mathRandom = 1 / 2, dateNow = 1700000000000,
     allowanceOut = Inr 0, approveNonce = Inr 7, approveFee = Inr (),
     approveSend = Inr ''0xaaaaaaaaaaaaaaaa'', approveWait = Inr (), encodeOut = Inr (),
     txNonce = Inr 8, txFee = Inr (), txSend = Inr ''0xbbbbbbbbbbbbbbbb'', txWait = Inr ()\<rparr>"

section \<open>Notions used in the statements about the runner\<close>

text \<open>No executor is called after a press of Stop.\<close>

fun quiet :: "event list \<Rightarrow> bool" where
  "quiet [] = True"
| "quiet (e # es) = ((e = StopPressed \<longrightarrow> execs es = []) \<and> quiet es)"

text \<open>
  What holds between the start of the account loop and its end: a run is active, the
  cancellation flag is set exactly when Stop was pressed, and no executor was called after
  a press.
\<close>

definition runInv :: "state \<Rightarrow> bool" where
  "runInv s = (activityRunning s \<and> (shouldStop s \<longleftrightarrow> StopPressed \<in> set (trace s)) \<and> quiet (trace s))"

text \<open>The globals that a run never writes.\<close>

definition frame :: "state \<Rightarrow> state \<Rightarrow> bool" where
  "frame s s' = (privateKeys s' = privateKeys s \<and> proxies s' = proxies s \<and>
     dailyActivityConfig s' = dailyActivityConfig s \<and> activityRunning s' = activityRunning s \<and>
     configFile s' = configFile s)"

text \<open>
  How a later state of a run relates to an earlier one: the frame is kept, a set
  cancellation flag stays set, \<open>runInv\<close> is kept, and once the flag is set no executor
  is called.
\<close>

definition rel :: "state \<Rightarrow> state \<Rightarrow> bool" where
  "rel s s' = (frame s s' \<and> (shouldStop s \<longrightarrow> shouldStop s') \<and> (runInv s \<longrightarrow> runInv s') \<and>
      (shouldStop s \<longrightarrow> execs (trace s') = execs (trace s)))"

text \<open>Neither repetition count is \<^verbatim>\<open>Infinity\<close>.\<close>

definition finiteReps :: "state \<Rightarrow> bool" where
  "finiteReps s = (bridgeRepetitions (dailyActivityConfig s) \<noteq> PInf \<and>
                   swapRepetitions (dailyActivityConfig s) \<noteq> PInf)"

text \<open>Nobody presses Stop and no awaited call throws.\<close>

definition calm :: "env \<Rightarrow> bool" where
  "calm env = ((\<forall>k. \<not> stopAt env k) \<and> (\<forall>k. faultAt env k = None))"

text \<open>
  Between two states of an undisturbed run: the frame is kept, the cancellation flag is
  clear, and the executor calls \<open>evs\<close> were added.
\<close>

definition step1 :: "state \<Rightarrow> state \<Rightarrow> event list \<Rightarrow> bool" where
  "step1 s s' evs = (frame s s' \<and> \<not> shouldStop s' \<and> execs (trace s') = execs (trace s) @ evs)"

text \<open>
  The executor calls of account \<open>i\<close> in a full run, \<open>B\<close> bridges then \<open>S\<close> swaps, and
  those of all accounts in order.
\<close>

definition accountCalls :: "variant \<Rightarrow> string list \<Rightarrow> string list \<Rightarrow> nat \<Rightarrow> nat \<Rightarrow> nat \<Rightarrow> event list" where
  "accountCalls v keys ps B S i =
     replicate B (ExecBridge (keys ! i) (resolveProxy v ps i) i) @
     replicate S (ExecSwap (keys ! i) (resolveProxy v ps i) i)"

definition fullRunCalls :: "variant \<Rightarrow> string list \<Rightarrow> string list \<Rightarrow> nat \<Rightarrow> nat \<Rightarrow> event list" where
  "fullRunCalls v keys ps B S = concat (map (accountCalls v keys ps B S) [0..<length keys])"

text \<open>Concrete states and environments for the examples.\<close>

definition oneKey :: state where
  "oneKey = initState\<lparr>privateKeys := [''k1'']\<rparr>"

definition twoKeys :: state where
  "twoKeys = initState\<lparr>privateKeys := [''k1'', ''k2''],
      dailyActivityConfig := \<lparr>bridgeRepetitions = Fin 2, swapRepetitions = Fin 1\<rparr>\<rparr>"


definition stopFirst :: env where
  "stopFirst = \<lparr>stopAt = (\<lambda>k. k = 0), faultAt = (\<lambda>_. None), randomAt = (\<lambda>_. 0)\<rparr>"

definition calmEnv :: env where
  "calmEnv = \<lparr>stopAt = (\<lambda>k. False), faultAt = (\<lambda>_. None), randomAt = (\<lambda>_. 0)\<rparr>"


definition stopLate :: env where
  "stopLate = \<lparr>stopAt = (\<lambda>k. k = 0), faultAt = (\<lambda>_. None),
                randomAt = (\<lambda>k. if k = 1 then 12000 / 12001 else 8000 / 8001)\<rparr>"


chapter \<open>Properties\<close>

declare showNat.simps [simp del]

section \<open>The log buffer\<close>

lemma addLog_frame [simp]:
  "privateKeys (addLog v a b s) = privateKeys s"
  "proxies (addLog v a b s) = proxies s"
  "dailyActivityConfig (addLog v a b s) = dailyActivityConfig s"
  "activityRunning (addLog v a b s) = activityRunning s"
  "shouldStop (addLog v a b s) = shouldStop s"
  "configFile (addLog v a b s) = configFile s"
  "clock (addLog v a b s) = clock s"
  "trace (addLog v a b s) = trace s"
  by (simp_all add: addLog_def Let_def)

lemma addLog_last [simp]:
  "last (transactionLogs (addLog v str ty s)) = \<lparr>level = ty, line = str\<rparr>"
  "transactionLogs (addLog v str ty s) \<noteq> []"
  by (cases v; simp add: addLog_def Let_def trimLogs_def sliceLast_def)+

section \<open>The log buffer\<close>

lemma trimLogs_eq: "trimLogs 1000 xs = drop (length xs - 1000) xs"
  by (simp add: trimLogs_def sliceLast_def)

lemma addLog_index_logs:
  "transactionLogs (addLog IndexJs str ty s) =
     drop (Suc (length (transactionLogs s)) - 1000) (transactionLogs s @ [lineOf (str, ty)])"
  by (simp add: addLog_def trimLogs_eq lineOf_def Let_def)

lemma addLog_unibot_logs:
  "transactionLogs (addLog UniBot str ty s) = transactionLogs s @ [lineOf (str, ty)]"
  by (simp add: addLog_def lineOf_def Let_def)

lemma drop_window:
  "drop (length (drop (length xs - 1000) xs) + m - 1000) (drop (length xs - 1000) xs @ ys)
     = drop (length xs + m - 1000) (xs @ ys)"
proof -
  let ?d = "length xs - 1000"
  have "drop ?d (xs @ ys) = drop ?d xs @ ys" by simp
  then have "drop (length (drop ?d xs) + m - 1000) (drop ?d xs @ ys)
           = drop (length (drop ?d xs) + m - 1000 + ?d) (xs @ ys)"
    by (metis drop_drop)
  moreover have "length (drop ?d xs) + m - 1000 + ?d = length xs + m - 1000" by simp
  ultimately show ?thesis by simp
qed

lemma addLogs_index_logs:
  "length (transactionLogs s) \<le> 1000 \<Longrightarrow>
   transactionLogs (addLogs IndexJs es s) =
     drop (length (transactionLogs s) + length es - 1000) (transactionLogs s @ map lineOf es)"
proof (induction es arbitrary: s)
  case Nil
  then show ?case by simp
next
  case (Cons e es)
  let ?s1 = "addLog IndexJs (fst e) (snd e) s"
  let ?L = "transactionLogs s"
  have l1: "transactionLogs ?s1 = drop (Suc (length ?L) - 1000) (?L @ [lineOf e])"
    by (simp add: addLog_index_logs)
  have len1: "length (transactionLogs ?s1) \<le> 1000"
    using Cons.prems by (simp add: l1)
  have "transactionLogs (addLogs IndexJs (e # es) s) =
        drop (length (transactionLogs ?s1) + length es - 1000) (transactionLogs ?s1 @ map lineOf es)"
    using Cons.IH[OF len1] by simp
  also have "\<dots> = drop (length ?L + length (e # es) - 1000) (?L @ map lineOf (e # es))"
    using drop_window[of "?L @ [lineOf e]" "length es" "map lineOf es"] by (simp add: l1)
  finally show ?case .
qed

lemma addLogs_unibot_logs:
  "transactionLogs (addLogs UniBot es s) = transactionLogs s @ map lineOf es"
  by (induction es arbitrary: s) (simp_all add: addLog_unibot_logs)

text \<open>
  C4 (as amended). In \<^verbatim>\<open>index.js\<close>, starting from a buffer of at most 1000 lines, any
  sequence of appends leaves at most 1000 lines, and they are the most recent ones in
  order: the last 1000 of the old lines followed by the appended ones. In the other
  variant \<^verbatim>\<open>addLog\<close> never trims: the buffer is the old lines followed by all the appended
  ones.
\<close>

theorem log_buffer_cap:
  "length (transactionLogs s) \<le> 1000 \<Longrightarrow>
     length (transactionLogs (addLogs IndexJs es s)) \<le> 1000 \<and>
     transactionLogs (addLogs IndexJs es s) =
       drop (length (transactionLogs s) + length es - 1000) (transactionLogs s @ map lineOf es) \<and>
     transactionLogs (addLogs UniBot es s) = transactionLogs s @ map lineOf es"
  by (simp add: addLogs_index_logs addLogs_unibot_logs)

text \<open>
  The theorem at 1001 appends to the empty buffer: \<^verbatim>\<open>index.js\<close> keeps exactly the last
  1000 of them, in order; the other variant keeps all 1001.
\<close>

theorem log_buffer_cap_witness:
  "length (transactionLogs initState) \<le> 1000 \<and>
   transactionLogs (addLogs IndexJs (map (\<lambda>k. (showNat k, ''info'')) [0..<1001]) initState) =
     map (\<lambda>k. lineOf (showNat k, ''info'')) [1..<1001] \<and>
   length (transactionLogs (addLogs IndexJs (map (\<lambda>k. (showNat k, ''info'')) [0..<1001]) initState)) = 1000 \<and>
   length (transactionLogs (addLogs UniBot (map (\<lambda>k. (showNat k, ''info'')) [0..<1001]) initState)) = 1001"
proof -
  have h: "length (transactionLogs initState) \<le> 1000" by (simp add: initState_def)
  have e: "transactionLogs initState = []" by (simp add: initState_def)
  have d: "drop (Suc 0) (map (\<lambda>k. lineOf (showNat k, ''info'')) [0..<1001]) =
           map (\<lambda>k. lineOf (showNat k, ''info'')) [1..<1001]"
    by (simp only: drop_map drop_upt) simp
  show ?thesis
    using log_buffer_cap[OF h, of "map (\<lambda>k. (showNat k, ''info'')) [0..<1001]"] d
    by (simp add: e comp_def del: showNat.simps upt_Suc)
qed

text \<open>
  The claim as stated fails on the other variant: 1001 appends to the empty buffer leave
  1001 lines.
\<close>

theorem log_buffer_cap_counterexample:
  "\<not> length (transactionLogs (addLogs UniBot (replicate 1001 (''x'', ''info'')) initState)) \<le> 1000"
  by (simp add: addLogs_unibot_logs initState_def)

section \<open>Proxy of an account\<close>

lemma readLines_nonempty: "l \<in> set (fst (readLines v name f s)) \<Longrightarrow> l \<noteq> []"
  by (cases f) (auto simp: readLines_def)

lemma loadProxies_proxies: "proxies (loadProxies v f s) = fst (readLines v ''proxy.txt'' f s)"
  by (cases v) (simp_all add: loadProxies_def Let_def split: prod.splits)

lemma resolveProxy_general:
  "resolveProxy v ps i = (if ps = [] then None else Some (ps ! (i mod length ps)))"
  if "\<forall>p \<in> set ps. p \<noteq> []"
proof (cases "ps = []")
  case True
  then show ?thesis by (cases v) (simp_all add: resolveProxy_def jsMod_def jsIndex_def orNull_def)
next
  case False
  then have l: "0 < length ps" "max 1 (length ps) = length ps" by (simp_all add: max_def Suc_le_eq)
  then have "ps ! (i mod length ps) \<in> set ps" by simp
  with that have "ps ! (i mod length ps) \<noteq> []" by blast
  with False l show ?thesis
    by (cases v) (simp_all add: resolveProxy_def jsMod_def jsIndex_def orNull_def)
qed

text \<open>
  C8. The proxy of an account is a function of the account index and of the loaded proxy
  list alone: with no proxy loaded every account gets none, else account \<open>i\<close> gets
  \<open>proxies[i mod length proxies]\<close>. Both variants compute it, also for the empty list,
  where the second variant's index is NaN.
\<close>

theorem proxy_assignment:
  "resolveProxy v (proxies (loadProxies v f s)) i =
     (if proxies (loadProxies v f s) = [] then None
      else Some (proxies (loadProxies v f s) ! (i mod length (proxies (loadProxies v f s)))))"
  by (rule resolveProxy_general) (auto simp: loadProxies_proxies dest: readLines_nonempty)

text \<open>
  The theorem on a proxy file of two lines followed by a blank one, for accounts 0 to 3,
  and on a missing proxy file.
\<close>

theorem proxy_assignment_witness:
  "map (resolveProxy IndexJs (proxies (loadProxies IndexJs (Content ''http://a:1
 socks5://b:2

'') initState))) [0, 1, 2, 3] =
     [Some ''http://a:1'', Some ''socks5://b:2'', Some ''http://a:1'', Some ''socks5://b:2''] \<and>
   map (resolveProxy UniBot (proxies (loadProxies UniBot Missing initState))) [0, 1, 2] = [None, None, None]"
proof -
  have p: "proxies (loadProxies IndexJs (Content ''http://a:1
 socks5://b:2

'') initState) = [''http://a:1'', ''socks5://b:2'']"
    by (simp add: loadProxies_proxies readLines_def trim_def isSpace_def)
  have q: "proxies (loadProxies UniBot Missing initState) = []"
    by (simp add: loadProxies_proxies readLines_def)
  show ?thesis
    using proxy_assignment[of IndexJs "Content ''http://a:1
 socks5://b:2

''" initState] proxy_assignment[of UniBot Missing initState]
    by (simp add: p q numeral_2_eq_2[symmetric])
qed

section \<open>The configuration\<close>

lemma orOne_cases: "orOne n = (if n = NaN \<or> n = Fin 0 then Fin 1 else n)"
  by (cases n) (simp_all add: orOne_def truthy_def)

lemma truthy_orOne: "truthy (orOne n)"
  by (cases n) (simp_all add: orOne_def truthy_def)

lemma getField_obj: "getField (JObj kvs) k = Inr (map_of (rev kvs) k)"
  by (simp add: getField_def)

lemma assignConfig_ok:
  assumes "toNumber textNum (map_of (rev kvs) ''bridgeRepetitions'') = Inr nb"
      and "toNumber textNum (map_of (rev kvs) ''swapRepetitions'') = Inr ns"
  shows "assignConfig textNum (JObj kvs) s =
     (Inr (), s\<lparr>dailyActivityConfig := \<lparr>bridgeRepetitions = orOne nb, swapRepetitions = orOne ns\<rparr>\<rparr>)"
  using assms by (simp add: assignConfig_def bindE_def awaitOutcome_def getField_obj)

lemma loadConfig_ok:
  assumes "configFile s = Json (JObj kvs)"
      and "toNumber textNum (map_of (rev kvs) ''bridgeRepetitions'') = Inr nb"
      and "toNumber textNum (map_of (rev kvs) ''swapRepetitions'') = Inr ns"
  shows "loadConfig v textNum w s =
     (Inr (), addLog v ''Loaded config.json'' ''success''
        (s\<lparr>dailyActivityConfig := \<lparr>bridgeRepetitions = orOne nb, swapRepetitions = orOne ns\<rparr>\<rparr>))"
  using assms
  by (cases v) (simp_all add: loadConfig_def tryCatch_def bindE_def logIO_def assignConfig_ok)

lemma loadConfig_unparsed:
  assumes "configFile s = BadJson e"
  shows "fst (loadConfig v textNum w s) = Inr () \<and>
         dailyActivityConfig (snd (loadConfig v textNum w s)) = dailyActivityConfig s"
  using assms by (cases v) (simp_all add: loadConfig_def tryCatch_def throw_def logIO_def)

lemma loadConfig_absent:
  assumes "configFile s = NoFile"
  shows "dailyActivityConfig (snd (loadConfig v textNum w s)) = dailyActivityConfig s"
  using assms
  by (cases v; cases w) (simp_all add: loadConfig_def tryCatch_def bindE_def writeConfig_def logIO_def)

lemma toNumber_plain:
  "toNumber textNum None = Inr NaN"
  "toNumber textNum (Some JNull) = Inr (Fin 0)"
  "toNumber textNum (Some (JBool b)) = Inr (Fin (if b then 1 else 0))"
  "toNumber textNum (Some (JNum n)) = Inr n"
  by (simp_all add: toNumber_def)

lemma configJson_fields:
  "map_of (rev [(''bridgeRepetitions'', x), (''swapRepetitions'', y)]) ''bridgeRepetitions'' = Some x"
  "map_of (rev [(''bridgeRepetitions'', x), (''swapRepetitions'', y)]) ''swapRepetitions'' = Some y"
  by simp_all

lemma config_round_trip:
  assumes b: "bridgeRepetitions (dailyActivityConfig s) = Fin b" "b \<noteq> 0"
      and c: "swapRepetitions (dailyActivityConfig s) = Fin c" "c \<noteq> 0"
      and f: "configFile s2 = configFile (snd (writeConfig None s))"
  shows "dailyActivityConfig (snd (loadConfig v textNum w s2)) = dailyActivityConfig s"
proof -
  have cf: "configFile s2 = Json (JObj [(''bridgeRepetitions'', JNum (Fin b)), (''swapRepetitions'', JNum (Fin c))])"
    using f b c by (simp add: writeConfig_def configJson_def numJson_def)
  have "loadConfig v textNum w s2 =
     (Inr (), addLog v ''Loaded config.json'' ''success''
        (s2\<lparr>dailyActivityConfig := \<lparr>bridgeRepetitions = orOne (Fin b), swapRepetitions = orOne (Fin c)\<rparr>\<rparr>))"
    by (rule loadConfig_ok[OF cf]) (simp_all only: configJson_fields toNumber_plain)
  then show ?thesis using b c by (simp add: orOne_cases)
qed

text \<open>
  C9 (as amended). When the configuration file holds an object, each repetition count
  becomes \<^verbatim>\<open>Number(field) || 1\<close>: 1 when the number of the field is NaN or 0 (a missing field
  has the number NaN, \<^verbatim>\<open>null\<close> has 0), and the number itself otherwise, whatever its sign
  and whether or not it is whole. A configuration of finite non-zero counts that the
  script wrote is loaded back identically. A missing or unparsable file leaves the counts
  as they were.
\<close>

theorem config_load:
  "configFile s = Json (JObj kvs) \<Longrightarrow>
   toNumber textNum (map_of (rev kvs) ''bridgeRepetitions'') = Inr nb \<Longrightarrow>
   toNumber textNum (map_of (rev kvs) ''swapRepetitions'') = Inr ns \<Longrightarrow>
     dailyActivityConfig (snd (loadConfig v textNum w s)) =
       \<lparr>bridgeRepetitions = (if nb = NaN \<or> nb = Fin 0 then Fin 1 else nb),
        swapRepetitions = (if ns = NaN \<or> ns = Fin 0 then Fin 1 else ns)\<rparr> \<and>
     toNumber textNum None = Inr NaN \<and>
     toNumber textNum (Some JNull) = Inr (Fin 0) \<and>
     toNumber textNum (Some (JNum n)) = Inr n \<and>
     (\<forall>s0 b c s2. bridgeRepetitions (dailyActivityConfig s0) = Fin b \<and> b \<noteq> 0 \<and>
         swapRepetitions (dailyActivityConfig s0) = Fin c \<and> c \<noteq> 0 \<and>
         configFile s2 = configFile (snd (writeConfig None s0)) \<longrightarrow>
         dailyActivityConfig (snd (loadConfig v textNum w s2)) = dailyActivityConfig s0) \<and>
     (\<forall>s1 e. configFile s1 = NoFile \<or> configFile s1 = BadJson e \<longrightarrow>
         dailyActivityConfig (snd (loadConfig v textNum w s1)) = dailyActivityConfig s1)"
  by (auto simp: loadConfig_ok orOne_cases toNumber_plain config_round_trip loadConfig_absent
        loadConfig_unparsed)

text \<open>
  The theorem on a file with the count 3 and a text that is not a number, and on the file
  written from the counts 3 and 2.
\<close>

theorem config_load_witness:
  "dailyActivityConfig (snd (loadConfig IndexJs (\<lambda>j. Inr NaN) None
      (initState\<lparr>configFile := Json (JObj [(''bridgeRepetitions'', JNum (Fin 3)),
                                            (''swapRepetitions'', JStr ''abc'')])\<rparr>))) =
     \<lparr>bridgeRepetitions = Fin 3, swapRepetitions = Fin 1\<rparr> \<and>
   dailyActivityConfig (snd (loadConfig UniBot (\<lambda>j. Inr NaN) None
      (initState\<lparr>configFile := configFile (snd (writeConfig None
         (initState\<lparr>dailyActivityConfig := \<lparr>bridgeRepetitions = Fin 3, swapRepetitions = Fin 2\<rparr>\<rparr>)))\<rparr>))) =
     \<lparr>bridgeRepetitions = Fin 3, swapRepetitions = Fin 2\<rparr>"
proof -
  let ?a = "initState\<lparr>configFile := Json (JObj [(''bridgeRepetitions'', JNum (Fin 3)),
                                            (''swapRepetitions'', JStr ''abc'')])\<rparr>"
  let ?b = "initState\<lparr>dailyActivityConfig := \<lparr>bridgeRepetitions = Fin 3, swapRepetitions = Fin 2\<rparr>\<rparr>"
  let ?c = "initState\<lparr>configFile := configFile (snd (writeConfig None ?b))\<rparr>"
  have h: "configFile ?a = Json (JObj [(''bridgeRepetitions'', JNum (Fin 3)), (''swapRepetitions'', JStr ''abc'')])"
    "toNumber (\<lambda>j. Inr NaN) (map_of (rev [(''bridgeRepetitions'', JNum (Fin 3)), (''swapRepetitions'', JStr ''abc'')])
        ''bridgeRepetitions'') = Inr (Fin 3)"
    "toNumber (\<lambda>j. Inr NaN) (map_of (rev [(''bridgeRepetitions'', JNum (Fin 3)), (''swapRepetitions'', JStr ''abc'')])
        ''swapRepetitions'') = Inr NaN"
    by (simp_all add: toNumber_def)
  have h2: "configFile ?c = Json (JObj [(''bridgeRepetitions'', JNum (Fin 3)), (''swapRepetitions'', JNum (Fin 2))])"
    "toNumber (\<lambda>j. Inr NaN) (map_of (rev [(''bridgeRepetitions'', JNum (Fin 3)), (''swapRepetitions'', JNum (Fin 2))])
        ''bridgeRepetitions'') = Inr (Fin 3)"
    "toNumber (\<lambda>j. Inr NaN) (map_of (rev [(''bridgeRepetitions'', JNum (Fin 3)), (''swapRepetitions'', JNum (Fin 2))])
        ''swapRepetitions'') = Inr (Fin 2)"
    by (simp_all add: toNumber_def writeConfig_def configJson_def numJson_def initState_def)
  from config_load[OF h, of IndexJs None] config_load[OF h2, of UniBot None]
  show ?thesis by simp
qed

text \<open>
  The claim as stated fails: the counts -5 and 2.5 in the file are loaded as they are, and
  neither is a positive integer.
\<close>

theorem config_load_counterexample:
  "(let s' = snd (loadConfig IndexJs (\<lambda>j. Inr NaN) None
              (initState\<lparr>configFile := Json (JObj [(''bridgeRepetitions'', JNum (Fin (- 5))),
                                                    (''swapRepetitions'', JNum (Fin (5 / 2)))])\<rparr>))
      in bridgeRepetitions (dailyActivityConfig s') = Fin (- 5) \<and>
         swapRepetitions (dailyActivityConfig s') = Fin (5 / 2) \<and>
         \<not> positiveInteger (bridgeRepetitions (dailyActivityConfig s')) \<and>
         \<not> positiveInteger (swapRepetitions (dailyActivityConfig s')))"
proof -
  have fl: "\<lfloor>5 / 2 :: rat\<rfloor> = 2" by (simp add: floor_eq_iff)
  show ?thesis
    by (simp add: loadConfig_def tryCatch_def bindE_def logIO_def assignConfig_def awaitOutcome_def getField_def
        toNumber_def orOne_def truthy_def positiveInteger_def initState_def Let_def fl)
qed

section \<open>Amounts\<close>




lemma toFixed6_eq:
  "of_nat n \<le> x * 1000000 + 1 / 2 \<Longrightarrow> x * 1000000 + 1 / 2 < of_nat n + 1 \<Longrightarrow> toFixed6 x = n"
proof -
  assume "of_nat n \<le> x * 1000000 + 1 / 2" "x * 1000000 + 1 / 2 < of_nat n + 1"
  then have "\<lfloor>x * 1000000 + 1 / 2\<rfloor> = int n" by (intro floor_unique) simp_all
  then show ?thesis by (simp add: toFixed6_def)
qed

lemma half_amount: "bridgeAmount UniBot (1/2) = 30000" "bridgeAmount IndexJs (1/2) = 20000"
  "swapAmount (1/2) = 12500"
  by (simp_all add: bridgeAmount_def swapAmount_def toFixed6_eq)

lemma acct0: "acct 0 = ''Acct 1''" by (simp add: acct_def showNat.simps digitChar_def)

section \<open>The executors\<close>

lemma post_bindE: "post (bindE m f) P s = post m (\<lambda>r s'. case r of Inl e \<Rightarrow> P (Inl e) s' | Inr x \<Rightarrow> post (f x) P s') s"
  by (simp add: post_def bindE_def split: prod.splits sum.splits)

lemma post_tryCatch: "post (tryCatch m h) P s = post m (\<lambda>r s'. case r of Inl e \<Rightarrow> post (h e) P s' | Inr x \<Rightarrow> P (Inr x) s') s"
  by (simp add: post_def tryCatch_def split: prod.splits sum.splits)

lemma post_ret: "post (ret x) P s = P (Inr x) s" by (simp add: post_def ret_def)

lemma post_throw: "post (throw e) P s = P (Inl e) s" by (simp add: post_def throw_def)

lemma post_await: "post (awaitOutcome r) P s = P r s" by (simp add: post_def awaitOutcome_def)

lemma post_logIO: "post (logIO v a b) P s = P (Inr ()) (addLog v a b s)" by (simp add: post_def logIO_def)

lemma post_submit: "post (submit k args n g out) P s = P out (s\<lparr>trace := trace s @ [Submitted k args n g]\<rparr>)"
  by (simp add: post_def submit_def)

lemma post_getProvider: "post (getProvider v ch px) P s =
   (case providerInit ch px of Inr x \<Rightarrow> P (Inr x) s
     | Inl e \<Rightarrow> (case v of IndexJs \<Rightarrow> P (Inl e) s | UniBot \<Rightarrow> P (Inl e) (addLog v (''Provider init failed: '' @ e) ''error'' s)))"
  by (cases v) (simp_all add: getProvider_def post_tryCatch post_await post_bindE post_logIO post_throw split: sum.splits)

lemma post_getNextNonce: "post (getNextNonce v out) P s =
   (case out of Inr x \<Rightarrow> P (Inr x) s
     | Inl e \<Rightarrow> (case v of IndexJs \<Rightarrow> P (Inl e) s | UniBot \<Rightarrow> P (Inl e) (addLog v (''getNextNonce error: '' @ e) ''error'' s)))"
  by (cases v) (simp_all add: getNextNonce_def post_tryCatch post_await post_bindE post_logIO post_throw split: sum.splits)

lemmas post_rules = post_bindE post_tryCatch post_ret post_throw post_await post_logIO post_submit
  post_getProvider post_getNextNonce

lemma post_mono: "post m Q s \<Longrightarrow> (\<And>r s'. Q r s' \<Longrightarrow> Q' r s') \<Longrightarrow> post m Q' s"
  by (cases "m s") (simp add: post_def)

lemma routers_nonempty [simp]:
  "BRIDGE_ROUTER v \<noteq> []" "SWAP_ROUTER v \<noteq> []" "TOKEN_A v \<noteq> []" "TOKEN_B v \<noteq> []"
  by (cases v; simp add: BRIDGE_ROUTER_def SWAP_ROUTER_def TOKEN_A_def TOKEN_B_def)+

lemma checkAndApprove_post:
  "post (checkAndApprove v ch w i note)
     (\<lambda>r s'. r = Inr (\<not> approvalFails ch w) \<and>
        (approvalFails ch w \<longrightarrow> failureLine i ''approve failed'' (approvalFailures ch) (last (transactionLogs s'))) \<and>
        submitted Deposit (trace s') = submitted Deposit (trace s) \<and>
        length (submitted Approve (trace s')) \<le> Suc (length (submitted Approve (trace s)))) s"
  by (simp add: checkAndApprove_def post_rules approvalFails_def submitted_def isl_def failureLine_def approvalFailures_def
       split: sum.splits variant.splits)

lemma checkAndApprove_fails_iff:
  "fst (checkAndApprove v ch w i nt s) = Inr (\<not> approvalFails ch w)"
  using checkAndApprove_post[of v ch w i nt s] by (cases "checkAndApprove v ch w i nt s") (simp add: post_def)

lemma depositCall_post:
  "post (depositCall v ch a i)
     (\<lambda>r s'. (if callSucceeds ch then r = Inr True else (\<exists>e \<in> set (callFailures ch). r = Inl e)) \<and>
        submitted Approve (trace s') = submitted Approve (trace s) \<and>
        submitted Deposit (trace s') = submitted Deposit (trace s) @
          (case txNonce ch of Inl _ \<Rightarrow> [] | Inr n \<Rightarrow> (if isl (txFee ch) then [] else [Submitted Deposit [parseUnits18 a] n 800000]))) s"
  by (simp add: depositCall_def post_rules callSucceeds_def callFailures_def submitted_def isl_def
       split: sum.splits variant.splits)


lemma bridge_core_post:
  fixes v ch i s
  defines "a \<equiv> bridgeAmount v (mathRandom ch)"
  shows "post (bindE (checkAndApprove v ch (parseUnits18 a) i ''bridge token'') (\<lambda>ok.
           case v of IndexJs \<Rightarrow> depositCall v ch a i
                   | UniBot \<Rightarrow> (if \<not> ok then ret False else depositCall v ch a i)))
     (\<lambda>r s'.
        (if v = UniBot \<and> approvalFails ch (parseUnits18 a)
         then r = Inr False \<and>
              failureLine i ''approve failed'' (approvalFailures ch) (last (transactionLogs s')) \<and>
              submitted Deposit (trace s') = submitted Deposit (trace s)
         else (if callSucceeds ch then r = Inr True else (\<exists>e \<in> set (callFailures ch). r = Inl e)) \<and>
              submitted Deposit (trace s') = submitted Deposit (trace s) @ depositEvents ch a) \<and>
        length (submitted Approve (trace s')) \<le> Suc (length (submitted Approve (trace s)))) s"
  unfolding post_bindE
proof (rule post_mono[OF checkAndApprove_post], goal_cases)
  case (1 r s1)
  show ?case
  proof (cases "v = UniBot \<and> approvalFails ch (parseUnits18 a)")
    case True
    then show ?thesis using 1 by (simp add: post_ret)
  next
    case False
    have "post (depositCall v ch a i)
            (\<lambda>r s'. ((if callSucceeds ch then r = Inr True else (\<exists>e \<in> set (callFailures ch). r = Inl e)) \<and>
                submitted Deposit (trace s') = submitted Deposit (trace s) @ depositEvents ch a) \<and>
               length (submitted Approve (trace s')) \<le> Suc (length (submitted Approve (trace s)))) s1"
      by (rule post_mono[OF depositCall_post]) (use 1 in \<open>simp add: depositEvents_def\<close>)
    then show ?thesis using 1 False by (cases v) auto
  qed
qed

lemma tryCatch_bindE_Inr: "m s = (Inr x, s') \<Longrightarrow> tryCatch (bindE m f) h s = tryCatch (f x) h s'"
  by (simp add: tryCatch_def bindE_def)

lemma getProvider_ok: "providerInit ch px = Inr x \<Longrightarrow> getProvider v ch px s = (Inr x, s)"
  by (cases v) (simp_all add: getProvider_def tryCatch_def awaitOutcome_def)

lemma bridge_guard: "(case v of IndexJs \<Rightarrow> BRIDGE_ROUTER v = [] | UniBot \<Rightarrow> BRIDGE_ROUTER v = [] \<or> TOKEN_A v = []) = False"
  by (cases v) simp_all


text \<open>
  What a call of the bridge executor does, case by case: the set-up fails; the approval
  fails in the variant that checks it; else the result is that of the deposit steps.
\<close>

lemma bridge_post:
  "post (performBridgeSimple v ch pk px i)
     (\<lambda>r s'.
        (if isl (providerInit ch px) \<or> isl (walletInit ch pk)
         then r = Inr False \<and>
              failureLine i ''bridge error'' (err (providerInit ch px) @ err (walletInit ch pk))
                (last (transactionLogs s')) \<and>
              trace s' = trace s
         else if v = UniBot \<and> approvalFails ch (parseUnits18 (bridgeAmount v (mathRandom ch)))
         then r = Inr False \<and>
              failureLine i ''approve failed'' (approvalFailures ch) (last (transactionLogs s')) \<and>
              submitted Deposit (trace s') = submitted Deposit (trace s)
         else r = Inr (callSucceeds ch) \<and>
              (\<not> callSucceeds ch \<longrightarrow>
                 failureLine i ''bridge error'' (callFailures ch) (last (transactionLogs s'))) \<and>
              submitted Deposit (trace s') = submitted Deposit (trace s) @ depositEvents ch (bridgeAmount v (mathRandom ch))) \<and>
        length (submitted Approve (trace s')) \<le> Suc (length (submitted Approve (trace s)))) s"
proof (cases "providerInit ch px")
  case (Inl e)
  then show ?thesis
    by (cases v) (simp_all add: performBridgeSimple_def post_tryCatch post_bindE post_getProvider
          post_logIO post_ret failureLine_def)
next
  case pr: (Inr x)
  show ?thesis
  proof (cases "walletInit ch pk")
    case (Inl e)
    then show ?thesis using pr
      by (cases v) (simp_all add: performBridgeSimple_def post_tryCatch post_bindE post_getProvider
            post_await post_logIO post_ret failureLine_def)
  next
    case (Inr y)
    have eq: "performBridgeSimple v ch pk px i s =
        tryCatch (bindE (checkAndApprove v ch (parseUnits18 (bridgeAmount v (mathRandom ch))) i ''bridge token'') (\<lambda>ok.
             case v of IndexJs \<Rightarrow> depositCall v ch (bridgeAmount v (mathRandom ch)) i
                     | UniBot \<Rightarrow> (if \<not> ok then ret False else depositCall v ch (bridgeAmount v (mathRandom ch)) i)))
            (\<lambda>e. bindE (logIO v (acct i @ '': bridge error: '' @ e) ''error'') (\<lambda>_. ret False)) s"
    proof -
      have aw: "awaitOutcome (walletInit ch pk) s = (Inr y, s)" by (simp add: awaitOutcome_def Inr)
      show ?thesis
        by (simp only: performBridgeSimple_def bridge_guard if_False
              tryCatch_bindE_Inr[where m = "getProvider v ch px", OF getProvider_ok[OF pr]]
              tryCatch_bindE_Inr[where m = "awaitOutcome (walletInit ch pk)", OF aw])
    qed
    have "post (tryCatch (bindE (checkAndApprove v ch (parseUnits18 (bridgeAmount v (mathRandom ch))) i ''bridge token'') (\<lambda>ok.
             case v of IndexJs \<Rightarrow> depositCall v ch (bridgeAmount v (mathRandom ch)) i
                     | UniBot \<Rightarrow> (if \<not> ok then ret False else depositCall v ch (bridgeAmount v (mathRandom ch)) i)))
            (\<lambda>e. bindE (logIO v (acct i @ '': bridge error: '' @ e) ''error'') (\<lambda>_. ret False)))
       (\<lambda>r s'.
          (if v = UniBot \<and> approvalFails ch (parseUnits18 (bridgeAmount v (mathRandom ch)))
           then r = Inr False \<and>
                failureLine i ''approve failed'' (approvalFailures ch) (last (transactionLogs s')) \<and>
                submitted Deposit (trace s') = submitted Deposit (trace s)
           else r = Inr (callSucceeds ch) \<and>
                (\<not> callSucceeds ch \<longrightarrow>
                   failureLine i ''bridge error'' (callFailures ch) (last (transactionLogs s'))) \<and>
                submitted Deposit (trace s') = submitted Deposit (trace s) @ depositEvents ch (bridgeAmount v (mathRandom ch))) \<and>
          length (submitted Approve (trace s')) \<le> Suc (length (submitted Approve (trace s)))) s"
      unfolding post_tryCatch
      by (rule post_mono[OF bridge_core_post])
         (auto simp: post_rules failureLine_def split: if_splits)
    then have "post (performBridgeSimple v ch pk px i)
       (\<lambda>r s'.
          (if v = UniBot \<and> approvalFails ch (parseUnits18 (bridgeAmount v (mathRandom ch)))
           then r = Inr False \<and>
                failureLine i ''approve failed'' (approvalFailures ch) (last (transactionLogs s')) \<and>
                submitted Deposit (trace s') = submitted Deposit (trace s)
           else r = Inr (callSucceeds ch) \<and>
                (\<not> callSucceeds ch \<longrightarrow>
                   failureLine i ''bridge error'' (callFailures ch) (last (transactionLogs s'))) \<and>
                submitted Deposit (trace s') = submitted Deposit (trace s) @ depositEvents ch (bridgeAmount v (mathRandom ch))) \<and>
          length (submitted Approve (trace s')) \<le> Suc (length (submitted Approve (trace s)))) s"
      by (simp only: post_def eq)
    then show ?thesis
      by (rule post_mono) (simp only: pr Inr sum.disc simp_thms if_False, elim conjE, assumption)
  qed
qed



lemmas exec_defs = performBridgeSimple_def performSwapSimple_def checkAndApprove_def depositCall_def
  swapCall_def bindE_def tryCatch_def ret_def throw_def awaitOutcome_def logIO_def submit_def
  getProvider_def getNextNonce_def BRIDGE_ROUTER_def SWAP_ROUTER_def TOKEN_A_def TOKEN_B_def




text \<open>
  C3 (as amended). When the set-up succeeds and the approval step fails, the second
  variant returns false with the failure logged for the account and hands no deposit to
  the client. \<^verbatim>\<open>index.js\<close> goes on with the deposit steps, and its result is theirs. In
  both variants at most one approval and at most one deposit are handed over: nothing is
  tried again.
\<close>

theorem approval_failure:
  "approvalFails ch (parseUnits18 (bridgeAmount v (mathRandom ch))) \<Longrightarrow>
   providerInit ch px = Inr x \<Longrightarrow> walletInit ch pk = Inr y \<Longrightarrow>
     \<exists>s'. performBridgeSimple v ch pk px i s =
             (Inr (case v of UniBot \<Rightarrow> False | IndexJs \<Rightarrow> callSucceeds ch), s') \<and>
        submitted Deposit (trace s') = submitted Deposit (trace s) @
           (case v of UniBot \<Rightarrow> [] | IndexJs \<Rightarrow> depositEvents ch (bridgeAmount v (mathRandom ch))) \<and>
        length (submitted Approve (trace s')) \<le> Suc (length (submitted Approve (trace s))) \<and>
        length (depositEvents ch (bridgeAmount v (mathRandom ch))) \<le> 1 \<and>
        (case v of
           UniBot \<Rightarrow> failureLine i ''approve failed'' (approvalFailures ch) (last (transactionLogs s'))
         | IndexJs \<Rightarrow> callSucceeds ch \<or>
             failureLine i ''bridge error'' (callFailures ch) (last (transactionLogs s')))"
proof -
  assume a: "approvalFails ch (parseUnits18 (bridgeAmount v (mathRandom ch)))"
    "providerInit ch px = Inr x" "walletInit ch pk = Inr y"
  obtain r' s' where b: "performBridgeSimple v ch pk px i s = (r', s')" by (cases "performBridgeSimple v ch pk px i s")
  have d: "length (depositEvents ch (bridgeAmount v (mathRandom ch))) \<le> 1"
    by (simp add: depositEvents_def split: sum.splits)
  from bridge_post[of v ch pk px i s] b a d show ?thesis
    by (cases v) (auto simp: post_def)
qed

text \<open>The theorem on the second variant, with a failing allowance query.\<close>

theorem approval_failure_witness:
  "approvalFails (okChain\<lparr>allowanceOut := Inl ''rpc down''\<rparr>)
      (parseUnits18 (bridgeAmount UniBot (mathRandom (okChain\<lparr>allowanceOut := Inl ''rpc down''\<rparr>)))) \<and>
   (\<exists>s'. performBridgeSimple UniBot (okChain\<lparr>allowanceOut := Inl ''rpc down''\<rparr>) ''k1'' None 0 initState =
            (Inr False, s') \<and>
      submitted Deposit (trace s') = [] \<and>
      last (transactionLogs s') = \<lparr>level = ''error'', line = ''Acct 1: approve failed: rpc down''\<rparr>)"
proof -
  let ?ch = "okChain\<lparr>allowanceOut := Inl ''rpc down''\<rparr>"
  have h: "approvalFails ?ch (parseUnits18 (bridgeAmount UniBot (mathRandom ?ch)))"
          "providerInit ?ch None = Inr ()" "walletInit ?ch ''k1'' = Inr ''0xA11CE''"
    by (simp_all add: approvalFails_def okChain_def)
  have l: "last (transactionLogs (snd (performBridgeSimple UniBot ?ch ''k1'' None 0 initState))) =
      \<lparr>level = ''error'', line = ''Acct 1: approve failed: rpc down''\<rparr>"
    by (simp add: exec_defs okChain_def half_amount parseUnits18_def acct0)
  from approval_failure[OF h, of 0 initState] obtain s' where
    s: "performBridgeSimple UniBot ?ch ''k1'' None 0 initState = (Inr False, s')"
       "submitted Deposit (trace s') = submitted Deposit (trace initState)"
    by auto
  have "submitted Deposit (trace s') = []" using s(2) by (simp add: initState_def submitted_def)
  moreover have "last (transactionLogs s') = \<lparr>level = ''error'', line = ''Acct 1: approve failed: rpc down''\<rparr>"
    using l s(1) by simp
  ultimately show ?thesis using h(1) s(1) by blast
qed

text \<open>
  The claim as stated fails on \<^verbatim>\<open>index.js\<close>: with a failing allowance query and every other
  step answering, the call returns true and a deposit is handed to the client.
\<close>

theorem approval_failure_counterexample:
  "approvalFails (okChain\<lparr>allowanceOut := Inl ''rpc down''\<rparr>)
      (parseUnits18 (bridgeAmount IndexJs (mathRandom (okChain\<lparr>allowanceOut := Inl ''rpc down''\<rparr>)))) \<and>
   fst (performBridgeSimple IndexJs (okChain\<lparr>allowanceOut := Inl ''rpc down''\<rparr>) ''k1'' None 0 initState) = Inr True \<and>
   submitted Deposit (trace (snd (performBridgeSimple IndexJs (okChain\<lparr>allowanceOut := Inl ''rpc down''\<rparr>)
      ''k1'' None 0 initState))) = [Submitted Deposit [20000 * 10 ^ 12] 8 800000]"
  by (simp add: exec_defs okChain_def half_amount parseUnits18_def submitted_def initState_def approvalFails_def)



section \<open>The runner: every run with finite counts ends\<close>

lemma rel_refl [simp]: "rel s s" by (simp add: rel_def frame_def)

lemma rel_trans: "rel s s1 \<Longrightarrow> rel s1 s2 \<Longrightarrow> rel s s2" by (auto simp: rel_def frame_def)

lemma execs_append [simp]: "execs (xs @ ys) = execs xs @ execs ys" by (simp add: execs_def)

lemma execs_simps [simp]: "execs [] = []" "execs (e # es) = (if isExec e then e # execs es else execs es)"
  by (simp_all add: execs_def)

lemma quiet_append:
  "quiet (xs @ ys) = (quiet xs \<and> quiet ys \<and> (StopPressed \<in> set xs \<longrightarrow> execs ys = []))"
  by (induction xs) auto

lemma rel_addLog [simp]: "rel s (addLog v a b s)"
  by (simp add: rel_def frame_def runInv_def)

lemma handleStop_simps [simp]:
  "privateKeys (handleStop v s) = privateKeys s"
  "proxies (handleStop v s) = proxies s"
  "dailyActivityConfig (handleStop v s) = dailyActivityConfig s"
  "activityRunning (handleStop v s) = activityRunning s"
  "configFile (handleStop v s) = configFile s"
  "clock (handleStop v s) = clock s"
  "trace (handleStop v s) = trace s"
  "shouldStop (handleStop v s) = (shouldStop s \<or> activityRunning s)"
  by (auto simp: handleStop_def)

lemma suspend_snd [simp]:
  "privateKeys (snd (suspend v env ev s)) = privateKeys s"
  "proxies (snd (suspend v env ev s)) = proxies s"
  "dailyActivityConfig (snd (suspend v env ev s)) = dailyActivityConfig s"
  "activityRunning (snd (suspend v env ev s)) = activityRunning s"
  "configFile (snd (suspend v env ev s)) = configFile s"
  "clock (snd (suspend v env ev s)) = Suc (clock s)"
  "trace (snd (suspend v env ev s)) = trace s @ ev # (if stopAt env (clock s) then [StopPressed] else [])"
  "shouldStop (snd (suspend v env ev s)) = (shouldStop s \<or> (stopAt env (clock s) \<and> activityRunning s))"
  by (simp_all add: suspend_def Let_def)

lemma rel_suspend:
  "\<not> isExec ev \<or> \<not> shouldStop s \<Longrightarrow> ev \<noteq> StopPressed \<Longrightarrow> rel s (snd (suspend v env ev s))"
  by (auto simp: rel_def frame_def runInv_def quiet_append)

lemma sleepRandom_eq: "sleepRandom v env lo hi s =
   suspend v env (Slept (nat \<lfloor>randomAt env (clock s) * (of_nat hi - of_nat lo + 1)\<rfloor> + lo)) s"
  by (simp add: sleepRandom_def sleep_def)

lemma rel_sleepRandom: "rel s (snd (sleepRandom v env lo hi s))"
  by (simp add: sleepRandom_eq rel_suspend)

lemma rel_sleep: "rel s (snd (sleep v env ms s))"
  by (simp add: sleep_def rel_suspend)

lemma rel_repBody:
  assumes "isExec call \<longrightarrow> \<not> shouldStop s" "call \<noteq> StopPressed"
  shows "rel s (snd (repBody v env reps call b s))"
proof -
  obtain r1 s1 where a: "suspend v env call s = (r1, s1)" by (cases "suspend v env call s")
  have r1: "rel s s1" using rel_suspend[of call s v env] assms a by auto
  show ?thesis
  proof (cases r1)
    case (Inl e)
    then show ?thesis using a r1 by (simp add: repBody_def bindE_def)
  next
    case (Inr u)
    then show ?thesis using a r1 rel_sleepRandom[of s1 v env 8000 20000]
      by (auto simp: repBody_def bindE_def ret_def intro: rel_trans)
  qed
qed

lemma clock_repBody: "clock s < clock (snd (repBody v env reps call b s))"
  by (auto simp: repBody_def bindE_def ret_def sleepRandom_eq suspend_def Let_def split: prod.splits sum.splits option.splits)

lemma frame_repBody: "dailyActivityConfig (snd (repBody v env reps call b s)) = dailyActivityConfig s"
  using rel_suspend
  by (auto simp: repBody_def bindE_def ret_def sleepRandom_eq suspend_def Let_def split: prod.splits sum.splits option.splits)

lemma repLoop_stop: "\<not> repTest reps b s \<Longrightarrow> repLoop v env reps call b s = Some (Inr (), s)"
  by (subst repLoop.simps) simp

lemma repLoop_step:
  "repTest reps b s \<Longrightarrow>
   repLoop v env reps call b s =
     (case repBody v env reps call b s of
        (Inl e, s') \<Rightarrow> Some (Inl e, s')
      | (Inr _, s') \<Rightarrow> repLoop v env reps call (Suc b) s')"
  by (subst repLoop.simps) simp

lemma repLoop_total_fin:
  assumes "isExec call"
  shows "orOne (reps (dailyActivityConfig s)) = Fin q \<Longrightarrow> nat \<lceil>q\<rceil> - b = k \<Longrightarrow>
     \<exists>r s'. repLoop v env reps call b s = Some (r, s') \<and> rel s s' \<and> clock s \<le> clock s'"
proof (induction k arbitrary: b s)
  case 0
  then have "\<not> of_nat b < q" by (simp add: nat_le_iff ceiling_le_iff not_less) 
  then have "\<not> repTest reps b s" using 0 by (simp add: repTest_def numOf_def)
  then show ?case by (simp add: repLoop_stop)
next
  case (Suc k)
  show ?case
  proof (cases "repTest reps b s")
    case False
    then show ?thesis by (simp add: repLoop_stop)
  next
    case True
    obtain r1 s1 where body: "repBody v env reps call b s = (r1, s1)" by (cases "repBody v env reps call b s")
    have ns: "\<not> shouldStop s" using True by (simp add: repTest_def)
    have r1: "rel s s1" using rel_repBody[of call s v env reps b] assms ns body by (cases call) auto
    have c1: "clock s \<le> clock s1" using clock_repBody[of s v env reps call b] body by simp
    show ?thesis
    proof (cases r1)
      case (Inl e)
      then show ?thesis using True body r1 c1 by (simp add: repLoop_step)
    next
      case (Inr u)
      have cfg: "dailyActivityConfig s1 = dailyActivityConfig s" using frame_repBody[of v env reps call b s] body by simp
      have "\<exists>r s'. repLoop v env reps call (Suc b) s1 = Some (r, s') \<and> rel s1 s' \<and> clock s1 \<le> clock s'"
        by (rule Suc.IH) (use Suc.prems cfg in auto)
      then show ?thesis using True body Inr r1 c1 by (auto simp: repLoop_step intro: rel_trans)
    qed
  qed
qed

lemma repLoop_total:
  assumes "isExec call" "orOne (reps (dailyActivityConfig s)) \<noteq> PInf"
  shows "\<exists>r s'. repLoop v env reps call b s = Some (r, s') \<and> rel s s' \<and> clock s \<le> clock s'"
proof (cases "orOne (reps (dailyActivityConfig s))")
  case (Fin q)
  then show ?thesis using repLoop_total_fin[OF assms(1)] by blast
next
  case NaN
  then have "\<not> repTest reps b s" by (simp add: repTest_def numOf_def)
  then show ?thesis by (simp add: repLoop_stop)
next
  case NInf
  then have "\<not> repTest reps b s" by (simp add: repTest_def numOf_def)
  then show ?thesis by (simp add: repLoop_stop)
next
  case PInf
  then show ?thesis using assms by simp
qed

lemma orOne_PInf: "orOne n = PInf \<longleftrightarrow> n = PInf"
  by (cases n) (simp_all add: orOne_def truthy_def)

lemma rel_finite: "rel s s' \<Longrightarrow> finiteReps s' = finiteReps s"
  by (simp add: rel_def frame_def finiteReps_def)

lemma rel_keys: "rel s s' \<Longrightarrow> privateKeys s' = privateKeys s"
  by (simp add: rel_def frame_def)

lemma accountFrom_total:
  assumes fin: "finiteReps s"
  shows "\<exists>r s'. accountFrom v env pk px i b s = Some (r, s') \<and> rel s s' \<and> clock s \<le> clock s'"
proof -
  obtain r1 s1 where l1: "repLoop v env bridgeRepetitions (ExecBridge pk px i) b s = Some (r1, s1)"
      and r1: "rel s s1" and c1: "clock s \<le> clock s1"
    using repLoop_total[of "ExecBridge pk px i" bridgeRepetitions s v env b] fin
    by (auto simp: finiteReps_def orOne_PInf)
  show ?thesis
  proof (cases r1)
    case (Inl e)
    then show ?thesis using l1 r1 c1 by (simp add: accountFrom_def thenO_def)
  next
    case u1: (Inr u)
    let ?g = "sleepRandom v env (case v of IndexJs \<Rightarrow> 7000 | UniBot \<Rightarrow> 8000) 15000 s1"
    obtain r2 s2 where g: "?g = (r2, s2)" by (cases ?g)
    have r2: "rel s1 s2" using rel_sleepRandom[of s1 v env "(case v of IndexJs \<Rightarrow> 7000 | UniBot \<Rightarrow> 8000)" 15000] g by simp
    have c2: "clock s1 \<le> clock s2" using g by (auto simp: sleepRandom_eq suspend_def Let_def)
    show ?thesis
    proof (cases r2)
      case (Inl e)
      then show ?thesis using l1 u1 g r1 r2 c1 c2 by (auto simp: accountFrom_def thenO_def intro: rel_trans)
    next
      case u2: (Inr u')
      have fin2: "finiteReps s2" using fin r1 r2 by (simp add: rel_finite)
      obtain r3 s3 where l3: "repLoop v env swapRepetitions (ExecSwap pk px i) 0 s2 = Some (r3, s3)"
          and r3: "rel s2 s3" and c3: "clock s2 \<le> clock s3"
        using repLoop_total[of "ExecSwap pk px i" swapRepetitions s2 v env 0] fin2
        by (auto simp: finiteReps_def orOne_PInf)
      have r03: "rel s s3" using r1 r2 r3 by (blast intro: rel_trans)
      show ?thesis
      proof (cases r3)
        case (Inl e)
        then show ?thesis using l1 u1 g u2 l3 r03 c1 c2 c3 by (simp add: accountFrom_def thenO_def)
      next
        case u3: (Inr u'')
        let ?w = "bindE (logIO v ''Waiting 30s before next account...'' ''wait'') (\<lambda>_. sleep v env 30000) s3"
        have w: "rel s3 (snd ?w) \<and> clock s3 \<le> clock (snd ?w)"
          using rel_sleep[of "addLog v ''Waiting 30s before next account...'' ''wait'' s3" v env 30000]
          by (auto simp: bindE_def logIO_def sleep_def suspend_def Let_def split: prod.splits sum.splits
                intro: rel_trans[OF rel_addLog])
        show ?thesis using l1 u1 g u2 l3 u3 r03 c1 c2 c3 w
          by (cases ?w) (auto simp: accountFrom_def thenO_def intro: rel_trans)
      qed
    qed
  qed
qed

lemma accountTurn_total:
  assumes fin: "finiteReps s"
  shows "\<exists>r s'. accountTurn v env i s = Some (r, s') \<and> rel s s' \<and> clock s \<le> clock s'"
proof -
  let ?s0 = "(case v of
                  IndexJs \<Rightarrow> addLog v (''Processing account '' @ showNat (i + 1) @ ''/'' @
                                         showNat (length (privateKeys s))) ''info'' s
                | UniBot \<Rightarrow> addLog v (''Processing account '' @ showNat (i + 1) @ '' (proxy='' @
                                        (case resolveProxy v (proxies s) i of None \<Rightarrow> ''none'' | Some p \<Rightarrow> p) @ '')'') ''info'' s)"
  have r0: "rel s ?s0" "clock ?s0 = clock s" by (cases v; simp)+
  then have "finiteReps ?s0" using fin by (simp add: rel_finite)
  from accountFrom_total[OF this, of v env "privateKeys s ! i" "resolveProxy v (proxies s) i" i 0]
  show ?thesis using r0 by (auto simp: accountTurn_def Let_def intro: rel_trans)
qed

lemma accountLoop_stop:
  "\<not> (i < length (privateKeys s) \<and> \<not> shouldStop s) \<Longrightarrow> accountLoop v env i s = Some (Inr (), s)"
  by (subst accountLoop.simps) (simp only: if_False)

lemma accountLoop_step:
  "i < length (privateKeys s) \<Longrightarrow> \<not> shouldStop s \<Longrightarrow>
   accountLoop v env i s =
     (case accountTurn v env i s of
        None \<Rightarrow> None
      | Some (Inl e, s') \<Rightarrow> Some (Inl e, s')
      | Some (Inr _, s') \<Rightarrow> accountLoop v env (Suc i) s')"
  by (subst accountLoop.simps) simp

lemma accountLoop_total:
  "finiteReps s \<Longrightarrow> length (privateKeys s) - i = k \<Longrightarrow>
   \<exists>r s'. accountLoop v env i s = Some (r, s') \<and> rel s s' \<and> clock s \<le> clock s'"
proof (induction k arbitrary: i s)
  case 0
  then show ?case by (simp add: accountLoop_stop)
next
  case (Suc k)
  show ?case
  proof (cases "i < length (privateKeys s) \<and> \<not> shouldStop s")
    case False
    then show ?thesis by (simp add: accountLoop_stop)
  next
    case True
    obtain r1 s1 where t: "accountTurn v env i s = Some (r1, s1)" and r1: "rel s s1" and c1: "clock s \<le> clock s1"
      using accountTurn_total[OF Suc.prems(1)] by blast
    show ?thesis
    proof (cases r1)
      case (Inl e)
      then show ?thesis using True t r1 c1 by (simp add: accountLoop_step)
    next
      case (Inr u)
      have "\<exists>r s'. accountLoop v env (Suc i) s1 = Some (r, s') \<and> rel s1 s' \<and> clock s1 \<le> clock s'"
        by (rule Suc.IH) (use Suc.prems r1 in \<open>auto simp: rel_finite rel_keys\<close>)
      then show ?thesis using True t Inr r1 c1 by (auto simp: accountLoop_step intro: rel_trans)
    qed
  qed
qed

lemmas run_defs = runDailyActivityLoop_def accountLoop.simps accountTurn_def accountFrom_def thenO_def
  repLoop.simps repTest_def repBody_def bindE_def ret_def logIO_def sleep_def sleepRandom_def
  suspend_def Let_def numOf_def orOne_def truthy_def minusOne_def

lemmas eval_defs = run_defs initState_def resolveProxy_def jsMod_def jsIndex_def orNull_def

lemma quiet_no_stop: "StopPressed \<notin> set tr \<Longrightarrow> quiet tr"
  by (induction tr) auto


lemma run_index:
  assumes fin: "finiteReps s" and keys: "privateKeys s \<noteq> []" and idle: "\<not> activityRunning s"
      and fresh: "StopPressed \<notin> set (trace s)"
  shows "\<exists>s'. runDailyActivityLoop IndexJs env s = Some (Inr (), s') \<and>
            \<not> activityRunning s' \<and> \<not> shouldStop s' \<and> quiet (trace s')"
proof -
  let ?s1 = "addLog IndexJs ''Starting activity loop'' ''success'' (s\<lparr>activityRunning := True, shouldStop := False\<rparr>)"
  have inv1: "runInv ?s1" using fresh by (simp add: runInv_def quiet_no_stop)
  have fin1: "finiteReps ?s1" using fin by (simp add: finiteReps_def)
  obtain r s2 where l: "accountLoop IndexJs env 0 ?s1 = Some (r, s2)" and rl: "rel ?s1 s2"
    using accountLoop_total[OF fin1, of 0 _ IndexJs env] by blast
  have "runInv s2" using rl inv1 by (simp add: rel_def)
  then have q: "quiet (trace s2)" by (simp add: runInv_def)
  show ?thesis using keys idle l q
    by (cases r) (simp_all add: runDailyActivityLoop_def)
qed

lemma run_unibot:
  assumes fin: "finiteReps s" and keys: "privateKeys s \<noteq> []"
      and fresh: "StopPressed \<notin> set (trace s)"
  shows "\<exists>r s'. runDailyActivityLoop UniBot env s = Some (r, s') \<and> quiet (trace s') \<and>
            (shouldStop s' \<longleftrightarrow> StopPressed \<in> set (trace s')) \<and>
            (r = Inr () \<longrightarrow> \<not> activityRunning s')"
proof -
  let ?s1 = "addLog UniBot ''Starting daily activity loop'' ''success'' (s\<lparr>activityRunning := True, shouldStop := False\<rparr>)"
  have inv1: "runInv ?s1" using fresh by (simp add: runInv_def quiet_no_stop)
  have fin1: "finiteReps ?s1" using fin by (simp add: finiteReps_def)
  obtain r s2 where l: "accountLoop UniBot env 0 ?s1 = Some (r, s2)" and rl: "rel ?s1 s2"
    using accountLoop_total[OF fin1, of 0 _ UniBot env] by blast
  have "runInv s2" using rl inv1 by (simp add: rel_def)
  then have q: "quiet (trace s2)" "shouldStop s2 \<longleftrightarrow> StopPressed \<in> set (trace s2)" by (simp_all add: runInv_def)
  show ?thesis using keys l q
    by (cases r) (simp_all add: runDailyActivityLoop_def)
qed

lemma handleStop_sets: "shouldStop (handleStop v s0) \<Longrightarrow> \<not> shouldStop s0 \<Longrightarrow> activityRunning s0"
  by simp

lemma pre_oneKey: "finiteReps oneKey" "privateKeys oneKey \<noteq> []" "\<not> activityRunning oneKey"
  "StopPressed \<notin> set (trace oneKey)"
  by (simp_all add: oneKey_def initState_def finiteReps_def)


section \<open>The runner: flags and cancellation\<close>

text \<open>
  C5 (as amended). A run starts from an idle state with keys loaded and finite counts; the
  trace is observed from the start of the run. In \<^verbatim>\<open>index.js\<close> the run ends, whatever
  is pressed or thrown meanwhile, with both flags false. In the second variant a run that
  ends without a thrown error leaves the running flag false and the cancellation flag as
  the run left it: set exactly when Stop was pressed. In both variants the Stop action
  sets the cancellation flag only when the running flag is set.
\<close>

theorem flags_at_exit:
  "finiteReps s \<Longrightarrow> privateKeys s \<noteq> [] \<Longrightarrow> \<not> activityRunning s \<Longrightarrow> StopPressed \<notin> set (trace s) \<Longrightarrow>
     (\<exists>s'. runDailyActivityLoop IndexJs env s = Some (Inr (), s') \<and>
            \<not> activityRunning s' \<and> \<not> shouldStop s') \<and>
     (\<exists>r s'. runDailyActivityLoop UniBot env s = Some (r, s') \<and>
            (r = Inr () \<longrightarrow> \<not> activityRunning s' \<and> (shouldStop s' \<longleftrightarrow> StopPressed \<in> set (trace s')))) \<and>
     (shouldStop (handleStop v s0) \<and> \<not> shouldStop s0 \<longrightarrow> activityRunning s0)"
  using run_index[of s env] run_unibot[of s env] by (auto simp del: handleStop_simps dest: handleStop_sets)

text \<open>The theorem on a run over one key during whose first call Stop is pressed.\<close>

theorem flags_at_exit_witness:
  "finiteReps oneKey \<and> privateKeys oneKey \<noteq> [] \<and> \<not> activityRunning oneKey \<and>
   StopPressed \<notin> set (trace oneKey) \<and>
   (\<exists>s'. runDailyActivityLoop IndexJs stopFirst oneKey = Some (Inr (), s') \<and>
          \<not> activityRunning s' \<and> \<not> shouldStop s') \<and>
   (\<exists>s'. runDailyActivityLoop UniBot stopFirst oneKey = Some (Inr (), s') \<and>
          \<not> activityRunning s' \<and> shouldStop s' \<and> StopPressed \<in> set (trace s'))"
proof -
  have u: "map_option (\<lambda>(r, s'). (r, activityRunning s', shouldStop s', trace s'))
     (runDailyActivityLoop UniBot stopFirst oneKey) =
     Some (Inr (), False, True, [ExecBridge ''k1'' None 0, StopPressed, Slept 8000])"
    by (simp add: eval_defs oneKey_def stopFirst_def)
  then have u': "\<exists>s'. runDailyActivityLoop UniBot stopFirst oneKey = Some (Inr (), s') \<and>
          \<not> activityRunning s' \<and> shouldStop s' \<and> StopPressed \<in> set (trace s')"
    by (cases "runDailyActivityLoop UniBot stopFirst oneKey") auto
  from flags_at_exit[OF pre_oneKey, of stopFirst] u' show ?thesis
    using pre_oneKey by blast
qed

text \<open>
  The claim as stated fails on the second variant: the run over one key, with Stop pressed
  during the first call, ends with the cancellation flag still set.
\<close>

theorem flags_at_exit_counterexample:
  "map_option (\<lambda>(r, s'). (r, activityRunning s', shouldStop s'))
     (runDailyActivityLoop UniBot stopFirst oneKey) = Some (Inr (), False, True)"
  by (simp add: eval_defs oneKey_def stopFirst_def)




section \<open>The runner: a full run\<close>

lemma step1_trans: "step1 s s1 xs \<Longrightarrow> step1 s1 s2 ys \<Longrightarrow> step1 s s2 (xs @ ys)"
  by (auto simp: step1_def frame_def)

lemma step1_addLog: "\<not> shouldStop s \<Longrightarrow> step1 s (addLog v a b s) []"
  by (simp add: step1_def frame_def)

lemma suspend_calm:
  "calm env \<Longrightarrow> suspend v env ev s = (Inr (), s\<lparr>clock := Suc (clock s), trace := trace s @ [ev]\<rparr>)"
  by (simp add: calm_def suspend_def Let_def)

lemma sleepRandom_calm:
  "calm env \<Longrightarrow> \<not> shouldStop s \<Longrightarrow> \<exists>s'. sleepRandom v env lo hi s = (Inr (), s') \<and> step1 s s' []"
  by (simp add: sleepRandom_eq suspend_calm step1_def frame_def)

lemma repBody_calm:
  assumes "calm env" "\<not> shouldStop s" "isExec call"
  shows "\<exists>s'. repBody v env reps call b s = (Inr (), s') \<and> step1 s s' [call]"
proof -
  let ?s1 = "s\<lparr>clock := Suc (clock s), trace := trace s @ [call]\<rparr>"
  have a: "step1 s ?s1 [call]" using assms by (simp add: step1_def frame_def)
  have n: "\<not> shouldStop ?s1" using assms by simp
  from sleepRandom_calm[OF assms(1) n, of v 8000 20000] obtain s2 where
    b: "sleepRandom v env 8000 20000 ?s1 = (Inr (), s2)" "step1 ?s1 s2 []" by blast
  show ?thesis using a b step1_trans[OF a b(2)] assms(1)
    by (auto simp: repBody_def bindE_def suspend_calm ret_def)
qed

lemma repLoop_calm:
  assumes "calm env" "isExec call" "1 \<le> B"
  shows "reps (dailyActivityConfig s) = Fin (of_nat B) \<Longrightarrow> \<not> shouldStop s \<Longrightarrow> B - b = k \<Longrightarrow>
     \<exists>s'. repLoop v env reps call b s = Some (Inr (), s') \<and> step1 s s' (replicate (B - b) call)"
proof (induction k arbitrary: b s)
  case 0
  then have "\<not> repTest reps b s" using assms(3) by (simp add: repTest_def numOf_def orOne_def truthy_def)
  then show ?case using 0 by (simp add: repLoop_stop step1_def frame_def)
next
  case (Suc k)
  then have lt: "b < B" by simp
  then have t: "repTest reps b s" using Suc.prems assms(3) by (simp add: repTest_def numOf_def orOne_def truthy_def)
  from repBody_calm[OF assms(1) Suc.prems(2) assms(2), of v reps b] obtain s1 where
    b1: "repBody v env reps call b s = (Inr (), s1)" "step1 s s1 [call]" by blast
  have c1: "reps (dailyActivityConfig s1) = Fin (of_nat B)" "\<not> shouldStop s1"
    using b1(2) Suc.prems by (simp_all add: step1_def frame_def)
  have "\<exists>s'. repLoop v env reps call (Suc b) s1 = Some (Inr (), s') \<and> step1 s1 s' (replicate (B - Suc b) call)"
    by (rule Suc.IH[OF c1]) (use Suc.prems in simp)
  then obtain s' where r: "repLoop v env reps call (Suc b) s1 = Some (Inr (), s')"
      "step1 s1 s' (replicate (B - Suc b) call)" by blast
  have "replicate (B - b) call = [call] @ replicate (B - Suc b) call"
    using lt by (simp add: Suc_diff_Suc flip: replicate_Suc)
  then show ?case using t b1 r step1_trans[OF b1(2) r(2)] by (simp add: repLoop_step)
qed

lemma accountFrom_calm:
  assumes "calm env" "1 \<le> B" "1 \<le> S"
      and "bridgeRepetitions (dailyActivityConfig s) = Fin (of_nat B)"
      and "swapRepetitions (dailyActivityConfig s) = Fin (of_nat S)"
      and "\<not> shouldStop s"
  shows "\<exists>s'. accountFrom v env pk px i 0 s = Some (Inr (), s') \<and>
           step1 s s' (replicate B (ExecBridge pk px i) @ replicate S (ExecSwap pk px i))"
proof -
  from repLoop_calm[OF assms(1) _ assms(2), of "ExecBridge pk px i" bridgeRepetitions s 0 B v] assms
  obtain s1 where l1: "repLoop v env bridgeRepetitions (ExecBridge pk px i) 0 s = Some (Inr (), s1)"
      "step1 s s1 (replicate B (ExecBridge pk px i))" by auto
  have n1: "\<not> shouldStop s1" using l1(2) by (simp add: step1_def)
  from sleepRandom_calm[OF assms(1) n1] obtain s2 where
    g: "sleepRandom v env (case v of IndexJs \<Rightarrow> 7000 | UniBot \<Rightarrow> 8000) 15000 s1 = (Inr (), s2)" "step1 s1 s2 []"
    by blast
  have c2: "swapRepetitions (dailyActivityConfig s2) = Fin (of_nat S)" "\<not> shouldStop s2"
    using l1(2) g(2) assms by (simp_all add: step1_def frame_def)
  from repLoop_calm[OF assms(1) _ assms(3), of "ExecSwap pk px i" swapRepetitions s2 0 S v] c2
  obtain s3 where l3: "repLoop v env swapRepetitions (ExecSwap pk px i) 0 s2 = Some (Inr (), s3)"
      "step1 s2 s3 (replicate S (ExecSwap pk px i))" by auto
  have s03: "step1 s s3 (replicate B (ExecBridge pk px i) @ replicate S (ExecSwap pk px i))"
    using step1_trans[OF step1_trans[OF l1(2) g(2)] l3(2)] by simp
  have n3: "\<not> shouldStop s3" using l3(2) by (simp add: step1_def)
  have w: "\<exists>s4. bindE (logIO v ''Waiting 30s before next account...'' ''wait'') (\<lambda>_. sleep v env 30000) s3 = (Inr (), s4)
             \<and> step1 s3 s4 []"
    using n3 assms(1) by (simp add: bindE_def logIO_def sleep_def suspend_calm step1_def frame_def)
  then obtain s4 where w4: "bindE (logIO v ''Waiting 30s before next account...'' ''wait'') (\<lambda>_. sleep v env 30000) s3 = (Inr (), s4)"
      "step1 s3 s4 []" by blast
  have s04: "step1 s s4 (replicate B (ExecBridge pk px i) @ replicate S (ExecSwap pk px i))"
    using step1_trans[OF s03 w4(2)] by simp
  show ?thesis using l1 g l3 w4 s03 s04 by (simp add: accountFrom_def thenO_def)
qed

lemma accountLoop_calm:
  assumes "calm env" "1 \<le> B" "1 \<le> S"
  shows "bridgeRepetitions (dailyActivityConfig s) = Fin (of_nat B) \<Longrightarrow>
      swapRepetitions (dailyActivityConfig s) = Fin (of_nat S) \<Longrightarrow>
      \<not> shouldStop s \<Longrightarrow> length (privateKeys s) - i = k \<Longrightarrow>
     \<exists>s'. accountLoop v env i s = Some (Inr (), s') \<and>
        step1 s s' (concat (map (accountCalls v (privateKeys s) (proxies s) B S) [i..<length (privateKeys s)]))"
proof (induction k arbitrary: i s)
  case 0
  then show ?case by (simp add: accountLoop_stop step1_def frame_def)
next
  case (Suc k)
  then have lt: "i < length (privateKeys s)" by simp
  let ?s0 = "(case v of
                  IndexJs \<Rightarrow> addLog v (''Processing account '' @ showNat (i + 1) @ ''/'' @
                                         showNat (length (privateKeys s))) ''info'' s
                | UniBot \<Rightarrow> addLog v (''Processing account '' @ showNat (i + 1) @ '' (proxy='' @
                                        (case resolveProxy v (proxies s) i of None \<Rightarrow> ''none'' | Some p \<Rightarrow> p) @ '')'') ''info'' s)"
  have s0: "step1 s ?s0 []" using Suc.prems(3) by (cases v) (simp_all add: step1_addLog)
  have c0: "bridgeRepetitions (dailyActivityConfig ?s0) = Fin (of_nat B)"
           "swapRepetitions (dailyActivityConfig ?s0) = Fin (of_nat S)" "\<not> shouldStop ?s0"
    using Suc.prems by (cases v; simp)+
  from accountFrom_calm[OF assms c0, of v "privateKeys s ! i" "resolveProxy v (proxies s) i" i]
  obtain s1 where t: "accountTurn v env i s = Some (Inr (), s1)"
      "step1 ?s0 s1 (accountCalls v (privateKeys s) (proxies s) B S i)"
    by (auto simp: accountTurn_def Let_def accountCalls_def)
  have s01: "step1 s s1 (accountCalls v (privateKeys s) (proxies s) B S i)"
    using step1_trans[OF s0 t(2)] by simp
  have c1: "bridgeRepetitions (dailyActivityConfig s1) = Fin (of_nat B)"
           "swapRepetitions (dailyActivityConfig s1) = Fin (of_nat S)" "\<not> shouldStop s1"
           "privateKeys s1 = privateKeys s" "proxies s1 = proxies s"
    using s01 Suc.prems by (simp_all add: step1_def frame_def)
  have "\<exists>s'. accountLoop v env (Suc i) s1 = Some (Inr (), s') \<and>
        step1 s1 s' (concat (map (accountCalls v (privateKeys s1) (proxies s1) B S) [Suc i..<length (privateKeys s1)]))"
    by (rule Suc.IH[OF c1(1,2,3)]) (use Suc.prems c1 in simp)
  then obtain s' where r: "accountLoop v env (Suc i) s1 = Some (Inr (), s')"
     "step1 s1 s' (concat (map (accountCalls v (privateKeys s) (proxies s) B S) [Suc i..<length (privateKeys s)]))"
    using c1 by auto
  have "[i..<length (privateKeys s)] = i # [Suc i..<length (privateKeys s)]" using lt by (simp add: upt_conv_Cons)
  then show ?case using lt Suc.prems(3) t r step1_trans[OF s01 r(2)] by (simp add: accountLoop_step)
qed

lemma count_calls:
  "length (filter isBridge (fullRunCalls v keys ps B S)) = B * length keys"
  "length (filter isSwap (fullRunCalls v keys ps B S)) = S * length keys"
proof -
  have a: "\<And>i. length (filter isBridge (accountCalls v keys ps B S i)) = B"
          "\<And>i. length (filter isSwap (accountCalls v keys ps B S i)) = S"
    by (simp_all add: accountCalls_def)
  have "\<And>xs. length (filter isBridge (concat (map (accountCalls v keys ps B S) xs))) = B * length xs"
    by (induct_tac xs) (simp_all add: a)
  then show "length (filter isBridge (fullRunCalls v keys ps B S)) = B * length keys"
    by (simp add: fullRunCalls_def)
  have "\<And>xs. length (filter isSwap (concat (map (accountCalls v keys ps B S) xs))) = S * length xs"
    by (induct_tac xs) (simp_all add: a)
  then show "length (filter isSwap (fullRunCalls v keys ps B S)) = S * length keys"
    by (simp add: fullRunCalls_def)
qed

text \<open>
  C1. With positive whole counts \<open>B\<close> and \<open>S\<close>, a run started from an idle state, during
  which Stop is not pressed and nothing throws, ends, and its executor calls are, account
  after account in the order of the keys, \<open>B\<close> bridge calls then \<open>S\<close> swap calls of that
  account with its proxy: \<open>B * N\<close> bridge calls and \<open>S * N\<close> swap calls for \<open>N\<close> keys.
\<close>

theorem full_run_calls:
  "bridgeRepetitions (dailyActivityConfig s) = Fin (of_nat B) \<Longrightarrow>
   swapRepetitions (dailyActivityConfig s) = Fin (of_nat S) \<Longrightarrow> 1 \<le> B \<Longrightarrow> 1 \<le> S \<Longrightarrow>
   \<not> activityRunning s \<Longrightarrow> (\<forall>k. \<not> stopAt env k) \<Longrightarrow> (\<forall>k. faultAt env k = None) \<Longrightarrow>
     \<exists>s'. runDailyActivityLoop v env s = Some (Inr (), s') \<and>
        execs (trace s') = execs (trace s) @ fullRunCalls v (privateKeys s) (proxies s) B S \<and>
        length (filter isBridge (fullRunCalls v (privateKeys s) (proxies s) B S)) = B * length (privateKeys s) \<and>
        length (filter isSwap (fullRunCalls v (privateKeys s) (proxies s) B S)) = S * length (privateKeys s)"
proof -
  assume a: "bridgeRepetitions (dailyActivityConfig s) = Fin (of_nat B)"
   "swapRepetitions (dailyActivityConfig s) = Fin (of_nat S)" "1 \<le> B" "1 \<le> S"
   "\<not> activityRunning s" "\<forall>k. \<not> stopAt env k" "\<forall>k. faultAt env k = None"
  have calm: "calm env" using a by (simp add: calm_def)
  show ?thesis
  proof (cases "privateKeys s = []")
    case True
    then show ?thesis by (cases v) (simp_all add: runDailyActivityLoop_def fullRunCalls_def)
  next
    case False
    let ?s1 = "addLog v (case v of IndexJs \<Rightarrow> ''Starting activity loop'' | UniBot \<Rightarrow> ''Starting daily activity loop'') ''success''
                 (s\<lparr>activityRunning := True, shouldStop := False\<rparr>)"
    have c1: "bridgeRepetitions (dailyActivityConfig ?s1) = Fin (of_nat B)"
             "swapRepetitions (dailyActivityConfig ?s1) = Fin (of_nat S)" "\<not> shouldStop ?s1"
      using a by simp_all
    from accountLoop_calm[OF calm a(3,4) c1, of 0 _ v]
    obtain s2 where l: "accountLoop v env 0 ?s1 = Some (Inr (), s2)"
       "step1 ?s1 s2 (fullRunCalls v (privateKeys s) (proxies s) B S)"
      by (auto simp: fullRunCalls_def)
    have "execs (trace s2) = execs (trace s) @ fullRunCalls v (privateKeys s) (proxies s) B S"
      using l(2) by (simp add: step1_def)
    then show ?thesis using False a(5) l(1)
      by (cases v) (simp_all add: runDailyActivityLoop_def count_calls)
  qed
qed

text \<open>The theorem on two keys, two bridges and one swap.\<close>

theorem full_run_calls_witness:
  "\<exists>s'. runDailyActivityLoop IndexJs calmEnv twoKeys = Some (Inr (), s') \<and>
     execs (trace s') =
       [ExecBridge ''k1'' None 0, ExecBridge ''k1'' None 0, ExecSwap ''k1'' None 0,
        ExecBridge ''k2'' None 1, ExecBridge ''k2'' None 1, ExecSwap ''k2'' None 1]"
proof -
  have h: "bridgeRepetitions (dailyActivityConfig twoKeys) = Fin (of_nat 2)"
          "swapRepetitions (dailyActivityConfig twoKeys) = Fin (of_nat 1)"
          "(1::nat) \<le> 2" "(1::nat) \<le> 1" "\<not> activityRunning twoKeys"
          "\<forall>k. \<not> stopAt calmEnv k" "\<forall>k. faultAt calmEnv k = None"
    by (simp_all add: twoKeys_def initState_def calmEnv_def)
  have e: "fullRunCalls IndexJs (privateKeys twoKeys) (proxies twoKeys) 2 (Suc 0) =
       [ExecBridge ''k1'' None 0, ExecBridge ''k1'' None 0, ExecSwap ''k1'' None 0,
        ExecBridge ''k2'' None 1, ExecBridge ''k2'' None 1, ExecSwap ''k2'' None 1]"
    by (simp add: fullRunCalls_def accountCalls_def twoKeys_def initState_def resolveProxy_def
          jsMod_def jsIndex_def orNull_def upt_rec numeral_2_eq_2)
  have t: "trace twoKeys = []" by (simp add: twoKeys_def initState_def)
  from full_run_calls[OF h, of IndexJs] show ?thesis by (auto simp: e t)
qed

section \<open>The runner: timers after a cancellation\<close>

lemma sleeps_append [simp]: "sleeps (xs @ ys) = sleeps xs @ sleeps ys" by (simp add: sleeps_def)

lemma sleeps_simps [simp]: "sleeps [] = []" "sleeps (Slept ms # es) = ms # sleeps es"
  "sleeps (StopPressed # es) = sleeps es"
  by (simp_all add: sleeps_def)





text \<open>
  Counted from the press itself, the timer between two repetitions comes on top: Stop
  during the first of two bridges, with the longest timers, is followed by 20, 15 and 30
  seconds.
\<close>

theorem stop_during_repetition:
  "map_option (\<lambda>(r, s'). (r, trace s', sum_list (sleeps (trace s'))))
     (runDailyActivityLoop IndexJs stopLate twoKeys) =
   Some (Inr (), [ExecBridge ''k1'' None 0, StopPressed, Slept 20000, Slept 15000, Slept 30000], 65000)"
  by (simp add: eval_defs twoKeys_def stopLate_def sleeps_def)

end
